theory Spec2Isabelle
  imports Main "HOL-Library.AList" "HOL-Library.Sublist" "HOL-Library.Multiset"
begin

section \<open>JavaScript values and the built-ins the module relies on\<close>

text \<open>
  The module \<^verbatim>\<open>src/lib/utils/fields.js\<close> works on untyped JavaScript values. The values
  that can flow through it are modelled by one datatype. A string is a list of code
  units (\<open>char\<close>, the code units below 256); a finite number is an integer, \<open>NaN\<close> has a
  constructor of its own; a \<open>Date\<close> object carries its time value, \<open>None\<close> for an
  \<^verbatim>\<open>Invalid Date\<close>.
\<close>

datatype jsval =
    JUndefined
  | JNull
  | JBool bool
  | JNum int
  | JNaN
  | JStr string
  | JDate "int option"
  | JArr "jsval list"

text \<open>\<^verbatim>\<open>!!v\<close>: the falsy values are undefined, null, false, 0, NaN and the empty string.\<close>

fun truthy :: "jsval \<Rightarrow> bool" where
  "truthy JUndefined = False"
| "truthy JNull = False"
| "truthy (JBool b) = b"
| "truthy (JNum n) = (n \<noteq> 0)"
| "truthy JNaN = False"
| "truthy (JStr s) = (s \<noteq> [])"
| "truthy (JDate d) = True"
| "truthy (JArr xs) = True"

text \<open>\<^verbatim>\<open>typeof v === 'string'\<close>, \<^verbatim>\<open>Array.isArray(v)\<close> with the elements of an array, and
  date-fns' \<^verbatim>\<open>isDate(v)\<close> (true of every \<open>Date\<close> object, valid or not).\<close>

fun is_string :: "jsval \<Rightarrow> bool" where
  "is_string (JStr s) = True"
| "is_string v = False"

fun isArray :: "jsval \<Rightarrow> bool" where
  "isArray (JArr xs) = True"
| "isArray v = False"

fun elements :: "jsval \<Rightarrow> jsval list" where
  "elements (JArr xs) = xs"
| "elements v = []"

fun isDate :: "jsval \<Rightarrow> bool" where
  "isDate (JDate d) = True"
| "isDate v = False"

text \<open>
  Built-ins whose result depends on the engine, the locale or the Unicode tables are
  parameters of the model: \<^verbatim>\<open>String(v)\<close> on a value that is not a string, the two case
  mappings, and whether \<^verbatim>\<open>Number(s)\<close> is \<open>NaN\<close> for a string \<open>s\<close>.
\<close>

record builtins =
  String_of :: "jsval \<Rightarrow> string"
  toUpperCase :: "string \<Rightarrow> string"
  toLowerCase :: "string \<Rightarrow> string"
  string_isNaN :: "string \<Rightarrow> bool"

text \<open>\<^verbatim>\<open>String(v)\<close>, also what a template literal does to \<^verbatim>\<open>${v}\<close>.\<close>

fun ToString :: "'b builtins_scheme \<Rightarrow> jsval \<Rightarrow> string" where
  "ToString B (JStr s) = s"
| "ToString B v = String_of B v"

text \<open>The global \<^verbatim>\<open>isNaN(v)\<close>: \<^verbatim>\<open>Number(v)\<close> is \<open>NaN\<close>. An array goes through its string form.\<close>

fun isNaN :: "'b builtins_scheme \<Rightarrow> jsval \<Rightarrow> bool" where
  "isNaN B JUndefined = True"
| "isNaN B JNull = False"
| "isNaN B (JBool b) = False"
| "isNaN B (JNum n) = False"
| "isNaN B JNaN = True"
| "isNaN B (JStr s) = string_isNaN B s"
| "isNaN B (JDate d) = (d = None)"
| "isNaN B (JArr xs) = string_isNaN B (String_of B (JArr xs))"

subsection \<open>Strings: trim, split, join\<close>

text \<open>White space and line terminators among the code units below 256:
  TAB, LF, VT, FF, CR, SP and NBSP.\<close>

definition is_whitespace :: "char \<Rightarrow> bool" where
  "is_whitespace c = (of_char c \<in> {9, 10, 11, 12, 13, 32, 160 :: nat})"

definition trim :: "string \<Rightarrow> string" where
  "trim s = rev (dropWhile is_whitespace (rev (dropWhile is_whitespace s)))"

text \<open>
  \<^verbatim>\<open>s.split(sep)\<close> for a string separator: the pieces between the occurrences of \<open>sep\<close>,
  scanning from the left; with the empty separator, the code units one by one.
\<close>

function split :: "string \<Rightarrow> string \<Rightarrow> string list" where
  "split sep [] = (if sep = [] then [] else [[]])"
| "split sep (c # cs) =
     (if sep = [] then map (\<lambda>x. [x]) (c # cs)
      else if prefix sep (c # cs) then [] # split sep (drop (length sep) (c # cs))
      else (case split sep cs of [] \<Rightarrow> [[c]] | w # ws \<Rightarrow> (c # w) # ws))"
  by pat_completeness auto
termination
  by (relation "measure (\<lambda>(sep, s). length s)") (auto simp: neq_Nil_conv)

text \<open>\<^verbatim>\<open>xs.join(sep)\<close> on an array of strings.\<close>

fun join :: "string \<Rightarrow> string list \<Rightarrow> string" where
  "join sep [] = []"
| "join sep [x] = x"
| "join sep (x # y # ys) = x @ sep @ join sep (y # ys)"

section \<open>Multivalued cells\<close>

datatype js_error = Error string | TypeError

definition MULTIVALUED_DELIMITER :: string where
  "MULTIVALUED_DELIMITER = ''; ''"

text \<open>
  \<^verbatim>\<open>parseMultivaluedValue(value)\<close>: a falsy value gives no token; a string is split on
  the trimmed delimiter, each piece trimmed, the empty pieces dropped; any other value
  has no \<^verbatim>\<open>split\<close> method, and the call throws a TypeError.
\<close>

definition parseMultivaluedValue :: "jsval \<Rightarrow> js_error + string list" where
  "parseMultivaluedValue v =
     (if \<not> truthy v then Inr []
      else case v of
        JStr s \<Rightarrow> Inr (filter (\<lambda>t. t \<noteq> []) (map trim (split (trim MULTIVALUED_DELIMITER) s)))
      | _ \<Rightarrow> Inl TypeError)"

text \<open>
  \<^verbatim>\<open>formatMultivaluedValue(values)\<close>, on an array or an absent argument (\<open>None\<close>):
  the falsy entries are dropped, a string is trimmed, anything else goes through
  \<^verbatim>\<open>String\<close>, and the results are joined with the delimiter.
\<close>

definition formatMultivaluedValue :: "'b builtins_scheme \<Rightarrow> jsval list option \<Rightarrow> string" where
  "formatMultivaluedValue B values =
     (case values of
        None \<Rightarrow> []
      | Some vs \<Rightarrow>
          join MULTIVALUED_DELIMITER
            (map (\<lambda>v. if is_string v then trim (ToString B v) else String_of B v)
               (filter truthy vs)))"

section \<open>Fields, options and the external coercion interface\<close>

text \<open>
  A field of the schema, with the properties the module reads. \<^verbatim>\<open>structured_pattern\<close> may
  be absent, and so may its \<^verbatim>\<open>syntax\<close>.
\<close>

record pattern =
  pattern_syntax :: "string option"

record field =
  name :: string
  datatype_tag :: string
  multivalued :: bool
  structured_pattern :: "pattern option"

datatype parse_failure_behavior = KEEP_ORIGINAL | REMOVE | THROW_ERROR

datatype date_format = DATE_OBJECT | JSON_SCHEMA_FORMAT | INPUT_FORMAT

record date_formats =
  dateFormat :: string
  datetimeFormat :: string
  timeFormat :: string

record array_options = date_formats +
  parseFailureBehavior :: parse_failure_behavior
  dateBehavior :: date_format

record object_options = date_formats +
  serializedDateFormat :: date_format

text \<open>The defaults that \<^verbatim>\<open>{...defaults, ...options}\<close> gives to an option left out.\<close>

definition default_array_options :: array_options where
  "default_array_options =
     \<lparr>dateFormat = ''yyyy-MM-dd'', datetimeFormat = ''yyyy-MM-dd HH:mm'', timeFormat = ''HH:mm'',
      parseFailureBehavior = KEEP_ORIGINAL, dateBehavior = DATE_OBJECT\<rparr>"

definition default_object_options :: object_options where
  "default_object_options =
     \<lparr>dateFormat = ''yyyy-MM-dd'', datetimeFormat = ''yyyy-MM-dd HH:mm'', timeFormat = ''HH:mm'',
      serializedDateFormat = DATE_OBJECT\<rparr>"

text \<open>
  What \<^verbatim>\<open>fields.js\<close> imports from \<^verbatim>\<open>./datatypes\<close> is a parameter of the model, next to the
  built-ins: the class \<^verbatim>\<open>Datatypes\<close> (built from the three format strings, with the methods
  \<^verbatim>\<open>parse\<close> and \<^verbatim>\<open>stringify\<close>) and four functions. \<^verbatim>\<open>parse\<close> returns \<open>JUndefined\<close> for a value
  it cannot read. None of them throws.
\<close>

record datatypes_instance =
  parse :: "jsval \<Rightarrow> string \<Rightarrow> jsval"
  stringify :: "jsval \<Rightarrow> string \<Rightarrow> jsval"

record env = builtins +
  Datatypes :: "date_formats \<Rightarrow> datatypes_instance"
  stringifyJsonSchemaDate :: "jsval \<Rightarrow> string \<Rightarrow> jsval"
  parseJsonSchemaDate :: "jsval \<Rightarrow> string \<Rightarrow> jsval"
  parseJsonDate :: "jsval \<Rightarrow> jsval"
  datatypeIsDateOrTime :: "string \<Rightarrow> bool"

text \<open>An array method's callback that may throw: the first exception ends the \<^verbatim>\<open>map\<close>.\<close>

fun map_throwing :: "('a \<Rightarrow> js_error + 'b) \<Rightarrow> 'a list \<Rightarrow> js_error + 'b list" where
  "map_throwing f [] = Inr []"
| "map_throwing f (x # xs) =
     (case f x of
        Inl e \<Rightarrow> Inl e
      | Inr y \<Rightarrow> (case map_throwing f xs of Inl e \<Rightarrow> Inl e | Inr ys \<Rightarrow> Inr (y # ys)))"

section \<open>changeCase\<close>

text \<open>
  The callback of the Title case branch: \<^verbatim>\<open>w[0]\<close> is undefined for the empty word, and
  calling \<^verbatim>\<open>toUpperCase\<close> on it throws.
\<close>

definition title_word :: "'b builtins_scheme \<Rightarrow> string \<Rightarrow> js_error + string" where
  "title_word B w =
     (case w of
        [] \<Rightarrow> Inl TypeError
      | c # cs \<Rightarrow> Inr (toUpperCase B [c] @ toLowerCase B cs))"

text \<open>
  \<^verbatim>\<open>changeCase(val, field)\<close> on a string \<open>val\<close>. Reading \<^verbatim>\<open>.syntax\<close> of an absent
  \<^verbatim>\<open>structured_pattern\<close> throws.
\<close>

definition changeCase :: "'b builtins_scheme \<Rightarrow> string \<Rightarrow> 'f field_scheme \<Rightarrow> js_error + string" where
  "changeCase B val fld =
     (case structured_pattern fld of
        None \<Rightarrow> Inl TypeError
      | Some p \<Rightarrow>
          if pattern_syntax p = Some ''{lower_case}'' then Inr (toLowerCase B val)
          else if pattern_syntax p = Some ''{UPPER_CASE}'' then Inr (toUpperCase B val)
          else if pattern_syntax p = Some ''{Title_Case}'' then
            (case map_throwing (title_word B) (split '' '' val) of
               Inl e \<Rightarrow> Inl e
             | Inr ws \<Rightarrow> Inr (join '' '' ws))
          else Inr val)"

section \<open>Keyed records\<close>

text \<open>
  The own properties of an object with string keys, in the order they were created: what
  \<^verbatim>\<open>Object.entries\<close> reads of a keyed record.
\<close>

type_synonym js_object = "(string \<times> jsval) list"

definition obj_get :: "js_object \<Rightarrow> string \<Rightarrow> jsval option" where
  "obj_get obj k = map_of obj k"

text \<open>
  The object that \<^verbatim>\<open>dataArrayToObject\<close> builds starts as \<^verbatim>\<open>{}\<close>: no own property, and
  \<^verbatim>\<open>Object.prototype\<close> as its prototype. The prototype matters for one key: \<^verbatim>\<open>__proto__\<close>
  is an accessor of \<^verbatim>\<open>Object.prototype\<close>, so that an assignment to it creates no own
  property. Its setter makes an object (here an array or a date) or null the new
  prototype and ignores any other value. Once the prototype is null the accessor is no
  longer inherited, and \<^verbatim>\<open>__proto__\<close> is a key like any other.
\<close>

datatype prototype = Object_prototype | Null_prototype | Value_prototype jsval

record built_object =
  proto :: prototype
  properties :: js_object

definition empty_object :: built_object where
  "empty_object = \<lparr>proto = Object_prototype, properties = []\<rparr>"

text \<open>
  The assignment \<^verbatim>\<open>obj[k] = v\<close>. For a key that is not intercepted it updates the own
  property in place, or creates it after the others.
\<close>

definition assign :: "built_object \<Rightarrow> string \<Rightarrow> jsval \<Rightarrow> built_object" where
  "assign obj k v =
     (if k = ''__proto__'' \<and> proto obj \<noteq> Null_prototype then
        (if v = JNull then obj\<lparr>proto := Null_prototype\<rparr>
         else if isArray v \<or> isDate v then obj\<lparr>proto := Value_prototype v\<rparr>
         else obj)
      else obj\<lparr>properties := AList.update k v (properties obj)\<rparr>)"

text \<open>
  \<^verbatim>\<open>Object.entries\<close> lists the keys that are array indices first (canonical decimal
  numerals up to \<open>2\<^sup>3\<^sup>2 - 2\<close>), in ascending order, then the other keys in creation order.
\<close>

definition is_digit :: "char \<Rightarrow> bool" where
  "is_digit c = (48 \<le> (of_char c :: nat) \<and> (of_char c :: nat) \<le> 57)"

definition int_of_digits :: "string \<Rightarrow> int" where
  "int_of_digits k = foldl (\<lambda>n c. 10 * n + (of_char c - 48)) 0 k"

definition is_array_index :: "string \<Rightarrow> bool" where
  "is_array_index k =
     (k \<noteq> [] \<and> list_all is_digit k \<and> (if hd k = CHR ''0'' then k = ''0'' else True) \<and>
      length k \<le> 10 \<and> int_of_digits k \<le> 4294967294)"

definition entries :: "js_object \<Rightarrow> (string \<times> jsval) list" where
  "entries obj =
     sort_key (\<lambda>kv. int_of_digits (fst kv)) (filter (\<lambda>kv. is_array_index (fst kv)) obj) @
     filter (\<lambda>kv. \<not> is_array_index (fst kv)) obj"

section \<open>dataArrayToObject\<close>

definition formatDatesAndTimes ::
  "env \<Rightarrow> datatypes_instance \<Rightarrow> date_format \<Rightarrow> jsval \<Rightarrow> string \<Rightarrow> jsval" where
  "formatDatesAndTimes E datatypes behavior dateObject dt =
     (if \<not> isDate dateObject then dateObject
      else case behavior of
        DATE_OBJECT \<Rightarrow> dateObject
      | INPUT_FORMAT \<Rightarrow> stringify datatypes dateObject dt
      | JSON_SCHEMA_FORMAT \<Rightarrow> stringifyJsonSchemaDate E dateObject dt)"

definition parse_error_message :: "env \<Rightarrow> jsval \<Rightarrow> string \<Rightarrow> string" where
  "parse_error_message E originalValue dt =
     ''Unable to parse value '' @ [CHR 0x22] @ ToString E originalValue @ [CHR 0x22] @
     '' as datatype '' @ [CHR 0x22] @ dt @ [CHR 0x22]"

definition getParsedValue ::
  "env \<Rightarrow> datatypes_instance \<Rightarrow> array_options \<Rightarrow> jsval \<Rightarrow> string \<Rightarrow> js_error + jsval" where
  "getParsedValue E datatypes options originalValue dt =
     (let parsedValue = parse datatypes originalValue dt in
      if parsedValue \<noteq> JUndefined then
        Inr (formatDatesAndTimes E datatypes (dateBehavior options) parsedValue dt)
      else case parseFailureBehavior options of
        KEEP_ORIGINAL \<Rightarrow> Inr originalValue
      | THROW_ERROR \<Rightarrow> Inl (Error (parse_error_message E originalValue dt))
      | REMOVE \<Rightarrow> Inr JUndefined)"

text \<open>
  The callback of \<^verbatim>\<open>dataArray.forEach\<close>, on the object built so far. \<^verbatim>\<open>fields[idx]\<close> is
  undefined beyond the end of the field list, and reading its \<^verbatim>\<open>multivalued\<close> throws.
\<close>

definition cell_to_object ::
  "env \<Rightarrow> datatypes_instance \<Rightarrow> array_options \<Rightarrow> field list \<Rightarrow> built_object \<Rightarrow> jsval \<Rightarrow> nat \<Rightarrow>
   js_error + built_object" where
  "cell_to_object E datatypes options fieldList dataObject cell idx =
     (if cell = JStr [] \<or> cell = JNull \<or> cell = JUndefined then Inr dataObject
      else if length fieldList \<le> idx then Inl TypeError
      else
        let fld = fieldList ! idx in
        if multivalued fld then
          (case parseMultivaluedValue cell of
             Inl e \<Rightarrow> Inl e
           | Inr split_cell \<Rightarrow>
               (case map_throwing
                       (\<lambda>cellElement. getParsedValue E datatypes options (JStr cellElement) (datatype_tag fld))
                       split_cell of
                  Inl e \<Rightarrow> Inl e
                | Inr values \<Rightarrow>
                    let parsed = filter (\<lambda>parsedValue. parsedValue \<noteq> JUndefined) values in
                    if length parsed > 0 then Inr (assign dataObject (name fld) (JArr parsed))
                    else Inr dataObject))
        else
          (case getParsedValue E datatypes options cell (datatype_tag fld) of
             Inl e \<Rightarrow> Inl e
           | Inr v \<Rightarrow> Inr (assign dataObject (name fld) v)))"

text \<open>\<^verbatim>\<open>forEach\<close> from index \<open>idx\<close> on; an exception ends the loop and the call.\<close>

fun forEach_cell ::
  "env \<Rightarrow> datatypes_instance \<Rightarrow> array_options \<Rightarrow> field list \<Rightarrow> jsval list \<Rightarrow> nat \<Rightarrow> built_object \<Rightarrow>
   js_error + built_object" where
  "forEach_cell E datatypes options fieldList [] idx dataObject = Inr dataObject"
| "forEach_cell E datatypes options fieldList (cell # cells) idx dataObject =
     (case cell_to_object E datatypes options fieldList dataObject cell idx of
        Inl e \<Rightarrow> Inl e
      | Inr dataObject' \<Rightarrow> forEach_cell E datatypes options fieldList cells (Suc idx) dataObject')"

definition dataArrayToObject ::
  "env \<Rightarrow> jsval list \<Rightarrow> field list \<Rightarrow> array_options \<Rightarrow> js_error + built_object" where
  "dataArrayToObject E dataArray fieldList options =
     (let datatypes = Datatypes E
            \<lparr>dateFormat = dateFormat options, datetimeFormat = datetimeFormat options,
             timeFormat = timeFormat options\<rparr>
      in forEach_cell E datatypes options fieldList dataArray 0 empty_object)"

section \<open>dataObjectToArray\<close>

definition parseDateString ::
  "env \<Rightarrow> datatypes_instance \<Rightarrow> date_format \<Rightarrow> jsval \<Rightarrow> string \<Rightarrow> jsval" where
  "parseDateString E datatypes serialized dateString dt =
     (case serialized of
        DATE_OBJECT \<Rightarrow> parseJsonDate E dateString
      | INPUT_FORMAT \<Rightarrow> parse datatypes dateString dt
      | JSON_SCHEMA_FORMAT \<Rightarrow> parseJsonSchemaDate E dateString dt)"

definition getStringifiedValue ::
  "env \<Rightarrow> datatypes_instance \<Rightarrow> date_format \<Rightarrow> jsval \<Rightarrow> string \<Rightarrow> jsval" where
  "getStringifiedValue E datatypes serialized originalValue dt =
     (let originalValue' =
        (if datatypeIsDateOrTime E dt \<and> is_string originalValue then
           (let parsed = parseDateString E datatypes serialized originalValue dt in
            if \<not> isNaN E parsed then parsed else originalValue)
         else originalValue)
      in stringify datatypes originalValue' dt)"

text \<open>\<^verbatim>\<open>fields.findIndex(p)\<close>: the first index whose field satisfies \<open>p\<close>, or \<open>-1\<close>.\<close>

fun findIndex :: "('a \<Rightarrow> bool) \<Rightarrow> 'a list \<Rightarrow> int" where
  "findIndex p [] = - 1"
| "findIndex p (x # xs) =
     (if p x then 0 else (let r = findIndex p xs in if r < 0 then - 1 else r + 1))"

text \<open>
  The body of the loop over the entries, on the pair of the warnings written to the
  console so far and the array.
\<close>

definition entry_to_array ::
  "env \<Rightarrow> datatypes_instance \<Rightarrow> date_format \<Rightarrow> field list \<Rightarrow> string list \<times> jsval list \<Rightarrow>
   string \<times> jsval \<Rightarrow> string list \<times> jsval list" where
  "entry_to_array E datatypes serialized fieldList state entry =
     (let key = fst entry; val = snd entry; warnings = fst state; dataArray = snd state;
          fieldIdx = findIndex (\<lambda>f. name f = key) fieldList
      in if fieldIdx < 0 then (warnings @ [''Could not map data object key '' @ key], dataArray)
         else
           let fld = fieldList ! nat fieldIdx in
           if multivalued fld \<and> isArray val then
             (warnings,
              dataArray[nat fieldIdx := JStr (formatMultivaluedValue E
                (Some (map (\<lambda>v. getStringifiedValue E datatypes serialized v (datatype_tag fld))
                   (elements val))))])
           else
             (warnings,
              dataArray[nat fieldIdx := getStringifiedValue E datatypes serialized val (datatype_tag fld)]))"

text \<open>
  \<^verbatim>\<open>dataObjectToArray\<close> reads its record through \<^verbatim>\<open>Object.entries\<close> only: the record is given
  by its own properties.
\<close>

definition dataObjectToArray ::
  "env \<Rightarrow> js_object \<Rightarrow> field list \<Rightarrow> object_options \<Rightarrow> string list \<times> jsval list" where
  "dataObjectToArray E dataObject fieldList options =
     (let datatypes = Datatypes E
            \<lparr>dateFormat = dateFormat options, datetimeFormat = datetimeFormat options,
             timeFormat = timeFormat options\<rparr>
      in foldl (entry_to_array E datatypes (serializedDateFormat options) fieldList)
           ([], replicate (length fieldList) (JStr []))
           (entries dataObject))"

section \<open>An instance of the parameters\<close>

text \<open>
  To evaluate the model on concrete records, the parameters are instantiated with a small
  host: decimal numerals for integers, ASCII case mapping, and a coercion engine that
  reads the tags \<^verbatim>\<open>xsd:integer\<close> (decimal digits), \<^verbatim>\<open>xsd:date\<close> (here a date is written as
  its time value in decimal digits, whatever the format strings) and \<^verbatim>\<open>xsd:string\<close>.
  The theorems below hold for every instance; this one only serves the examples.
\<close>

fun show_nat :: "nat \<Rightarrow> string" where
  "show_nat n =
     (if n < 10 then [''0123456789'' ! n] else show_nat (n div 10) @ [''0123456789'' ! (n mod 10)])"

declare show_nat.simps [simp del]

definition show_int :: "int \<Rightarrow> string" where
  "show_int i = (if i < 0 then CHR ''-'' # show_nat (nat (- i)) else show_nat (nat i))"

fun example_String :: "jsval \<Rightarrow> string" where
  "example_String JUndefined = ''undefined''"
| "example_String JNull = ''null''"
| "example_String (JBool b) = (if b then ''true'' else ''false'')"
| "example_String (JNum n) = show_int n"
| "example_String JNaN = ''NaN''"
| "example_String (JStr s) = s"
| "example_String (JDate d) = (case d of None \<Rightarrow> ''Invalid Date'' | Some t \<Rightarrow> show_int t)"
| "example_String (JArr xs) = join '','' (map example_String xs)"

definition ascii_upper :: "char \<Rightarrow> char" where
  "ascii_upper c =
     (if 97 \<le> (of_char c :: nat) \<and> (of_char c :: nat) \<le> 122 then char_of (of_char c - 32 :: nat) else c)"

definition ascii_lower :: "char \<Rightarrow> char" where
  "ascii_lower c =
     (if 65 \<le> (of_char c :: nat) \<and> (of_char c :: nat) \<le> 90 then char_of (of_char c + 32 :: nat) else c)"

definition example_parse :: "jsval \<Rightarrow> string \<Rightarrow> jsval" where
  "example_parse v dt =
     (case v of
        JStr s \<Rightarrow>
          if dt = ''xsd:string'' then v
          else if s \<noteq> [] \<and> list_all is_digit s \<and> dt = ''xsd:integer'' then JNum (int_of_digits s)
          else if s \<noteq> [] \<and> list_all is_digit s \<and> dt = ''xsd:date'' then JDate (Some (int_of_digits s))
          else JUndefined
      | _ \<Rightarrow> JUndefined)"

definition example_stringify :: "jsval \<Rightarrow> string \<Rightarrow> jsval" where
  "example_stringify v dt =
     (case v of
        JNum n \<Rightarrow> JStr (show_int n)
      | JDate (Some t) \<Rightarrow> JStr (show_int t)
      | JStr s \<Rightarrow> JStr s
      | _ \<Rightarrow> JStr [])"

definition example_env :: env where
  "example_env =
     \<lparr>String_of = example_String,
      toUpperCase = map ascii_upper,
      toLowerCase = map ascii_lower,
      string_isNaN = (\<lambda>s. \<not> list_all is_digit (trim s)),
      Datatypes = (\<lambda>formats. \<lparr>parse = example_parse, stringify = example_stringify\<rparr>),
      stringifyJsonSchemaDate = example_stringify,
      parseJsonSchemaDate = (\<lambda>v dt. example_parse v ''xsd:date''),
      parseJsonDate = (\<lambda>v. example_parse v ''xsd:date''),
      datatypeIsDateOrTime = (\<lambda>dt. dt = ''xsd:date'')\<rparr>"

definition example_field :: "string \<Rightarrow> string \<Rightarrow> bool \<Rightarrow> field" where
  "example_field n dt m = \<lparr>name = n, datatype_tag = dt, multivalued = m, structured_pattern = None\<rparr>"

section \<open>Notions of the specification\<close>

text \<open>
  What the specification says of one entry handed to the encoder: a falsy entry (the
  empty string, null, undefined, zero, false, NaN) is dropped, a string is trimmed, any
  other value is converted to its string form.
\<close>

fun encoded_entry :: "'b builtins_scheme \<Rightarrow> jsval \<Rightarrow> string option" where
  "encoded_entry B JUndefined = None"
| "encoded_entry B JNull = None"
| "encoded_entry B (JBool b) = (if b then Some (String_of B (JBool b)) else None)"
| "encoded_entry B (JNum n) = (if n = 0 then None else Some (String_of B (JNum n)))"
| "encoded_entry B JNaN = None"
| "encoded_entry B (JStr s) = (if s = [] then None else Some (trim s))"
| "encoded_entry B (JDate d) = Some (String_of B (JDate d))"
| "encoded_entry B (JArr xs) = Some (String_of B (JArr xs))"

text \<open>
  The per-value coercions that a conversion of the positional record calls for, in the
  order of the calls: one for a single-valued cell, one for each token of a multivalued
  cell, none for a cell that is skipped or that has no field.
\<close>

definition cell_coercions :: "field list \<Rightarrow> jsval \<Rightarrow> nat \<Rightarrow> (jsval \<times> string) list" where
  "cell_coercions fieldList cell idx =
     (if cell = JStr [] \<or> cell = JNull \<or> cell = JUndefined \<or> length fieldList \<le> idx then []
      else
        let fld = fieldList ! idx in
        if multivalued fld then
          (case parseMultivaluedValue cell of
             Inl e \<Rightarrow> []
           | Inr tokens \<Rightarrow> map (\<lambda>t. (JStr t, datatype_tag fld)) tokens)
        else [(cell, datatype_tag fld)])"

fun coercions :: "field list \<Rightarrow> jsval list \<Rightarrow> nat \<Rightarrow> (jsval \<times> string) list" where
  "coercions fieldList [] idx = []"
| "coercions fieldList (cell # cells) idx =
     cell_coercions fieldList cell idx @ coercions fieldList cells (Suc idx)"

definition fails_to_parse :: "datatypes_instance \<Rightarrow> jsval \<times> string \<Rightarrow> bool" where
  "fails_to_parse datatypes c = (parse datatypes (fst c) (snd c) = JUndefined)"

text \<open>
  What the conversion of the positional record comes to, cell by cell and in the order of
  the loop: a per-value coercion (one for a single-valued cell, one for each token of a
  multivalued cell), or a fault, where the cell has no field or is a multivalued cell
  that cannot be split. A skipped cell comes to nothing. The conversion halts at a fault,
  and at a coercion whose parse result is undefined when failures are to be thrown.
\<close>

datatype attempt = Coerce jsval string | Fault

definition cell_attempts :: "field list \<Rightarrow> jsval \<Rightarrow> nat \<Rightarrow> attempt list" where
  "cell_attempts fieldList cell idx =
     (if cell = JStr [] \<or> cell = JNull \<or> cell = JUndefined then []
      else if length fieldList \<le> idx then [Fault]
      else
        let fld = fieldList ! idx in
        if multivalued fld then
          (case parseMultivaluedValue cell of
             Inl e \<Rightarrow> [Fault]
           | Inr tokens \<Rightarrow> map (\<lambda>t. Coerce (JStr t) (datatype_tag fld)) tokens)
        else [Coerce cell (datatype_tag fld)])"

fun attempts :: "field list \<Rightarrow> jsval list \<Rightarrow> nat \<Rightarrow> attempt list" where
  "attempts fieldList [] idx = []"
| "attempts fieldList (cell # cells) idx =
     cell_attempts fieldList cell idx @ attempts fieldList cells (Suc idx)"

fun halts :: "datatypes_instance \<Rightarrow> parse_failure_behavior \<Rightarrow> attempt \<Rightarrow> bool" where
  "halts datatypes behavior Fault = True"
| "halts datatypes behavior (Coerce v dt) =
     (behavior = THROW_ERROR \<and> parse datatypes v dt = JUndefined)"

text \<open>The coercion engine that a conversion builds from the format strings of its options.\<close>

definition engine :: "env \<Rightarrow> 'a date_formats_scheme \<Rightarrow> datatypes_instance" where
  "engine E options =
     Datatypes E \<lparr>dateFormat = dateFormat options, datetimeFormat = datetimeFormat options,
       timeFormat = timeFormat options\<rparr>"

text \<open>A cell is skipped when it is the empty string, null or undefined.\<close>

definition skipped :: "jsval \<Rightarrow> bool" where
  "skipped cell = (cell = JStr [] \<or> cell = JNull \<or> cell = JUndefined)"

text \<open>
  A string is in canonical stringified form for a datatype when the coercion engine
  parses it to a typed value of the datatype's kind (a valid instant for a date or time
  kind, no date object for another kind) whose stringification is the string itself.
\<close>

fun is_instant :: "jsval \<Rightarrow> bool" where
  "is_instant (JDate (Some t)) = True"
| "is_instant v = False"

definition canonical_form :: "env \<Rightarrow> datatypes_instance \<Rightarrow> string \<Rightarrow> string \<Rightarrow> bool" where
  "canonical_form E datatypes dt s =
     (let typed = parse datatypes (JStr s) dt in
      typed \<noteq> JUndefined \<and>
      (if datatypeIsDateOrTime E dt then is_instant typed else \<not> isDate typed) \<and>
      stringify datatypes typed dt = JStr s)"

section \<open>The multivalue codec\<close>

lemma trim_delimiter: "trim MULTIVALUED_DELIMITER = '';''"
  by (simp add: trim_def MULTIVALUED_DELIMITER_def is_whitespace_def)

lemma space_is_whitespace: "is_whitespace CHR '' ''"
  by (simp add: is_whitespace_def)

lemma dropWhile_id: "xs = [] \<or> \<not> P (hd xs) \<Longrightarrow> dropWhile P xs = xs"
  by (cases xs) auto

lemma trim_ends:
  assumes "trim s \<noteq> []"
  shows "\<not> is_whitespace (hd (trim s))" and "\<not> is_whitespace (last (trim s))"
proof -
  let ?d = "dropWhile is_whitespace s"
  let ?e = "dropWhile is_whitespace (rev ?d)"
  have e: "?e \<noteq> []" using assms by (simp add: trim_def)
  then have d: "?d \<noteq> []" by (cases "?d") auto
  have "\<not> is_whitespace (hd ?e)" using e by (rule hd_dropWhile)
  then show "\<not> is_whitespace (last (trim s))"
    using e by (simp add: trim_def last_rev)
  have "rev ?d = takeWhile is_whitespace (rev ?d) @ ?e" by simp
  then have "?d = rev ?e @ rev (takeWhile is_whitespace (rev ?d))"
    by (metis rev_append rev_rev_ident)
  then have "hd ?d = hd (rev ?e)" using e
    by (metis hd_append2 rev_is_Nil_conv)
  moreover have "\<not> is_whitespace (hd ?d)" using d by (rule hd_dropWhile)
  ultimately show "\<not> is_whitespace (hd (trim s))" by (simp add: trim_def)
qed

lemma trim_fixed:
  assumes "t = [] \<or> (\<not> is_whitespace (hd t) \<and> \<not> is_whitespace (last t))"
  shows "trim t = t"
proof (cases "t = []")
  case True then show ?thesis by (simp add: trim_def)
next
  case False
  with assms have h: "\<not> is_whitespace (hd t)" and l: "\<not> is_whitespace (last t)" by auto
  have 1: "dropWhile is_whitespace t = t" using h by (simp add: dropWhile_id)
  have "hd (rev t) = last t" using False by (simp add: hd_rev)
  then have 2: "dropWhile is_whitespace (rev t) = rev t" using l by (simp add: dropWhile_id)
  show ?thesis by (simp add: trim_def 1 2)
qed

lemma trim_idem: "trim (trim s) = trim s"
  using trim_ends [of s] by (intro trim_fixed) blast

lemma set_trim: "set (trim s) \<subseteq> set s"
proof -
  have "set (trim s) = set (dropWhile is_whitespace (rev (dropWhile is_whitespace s)))"
    by (simp add: trim_def)
  also have "\<dots> \<subseteq> set (rev (dropWhile is_whitespace s))" by (auto dest: set_dropWhileD)
  also have "\<dots> \<subseteq> set s" by (auto dest: set_dropWhileD)
  finally show ?thesis .
qed

lemma trim_space_Cons: "trim (CHR '' '' # t) = trim t"
  by (simp add: trim_def space_is_whitespace)

lemma split_no_sep: "c \<notin> set a \<Longrightarrow> split [c] a = [a]"
  by (induction a) auto

lemma split_at_sep: "c \<notin> set a \<Longrightarrow> split [c] (a @ c # rest) = a # split [c] rest"
  by (induction a) auto

lemma split_join:
  assumes "\<forall>t \<in> set ts. CHR '';'' \<notin> set t" and "ts \<noteq> []"
  shows "split '';'' (join ''; '' ts) = hd ts # map (\<lambda>t. CHR '' '' # t) (tl ts)"
  using assms
proof (induction "''; ''" ts rule: join.induct)
  case 1
  then show ?case by simp
next
  case (2 x)
  then show ?case by (simp add: split_no_sep)
next
  case (3 x y ys)
  have "split '';'' (x @ CHR '';'' # (CHR '' '' # join ''; '' (y # ys))) =
        x # split '';'' (CHR '' '' # join ''; '' (y # ys))"
    using 3(2) by (intro split_at_sep) simp
  moreover have "split '';'' (join ''; '' (y # ys)) = y # map (\<lambda>t. CHR '' '' # t) ys"
    using 3 by simp
  ultimately show ?case by simp
qed

lemma trim_Nil: "trim [] = []"
  by (simp add: trim_def)

lemma parse_string:
  "parseMultivaluedValue (JStr s) = Inr (filter (\<lambda>t. t \<noteq> []) (map trim (split '';'' s)))"
proof (cases "s = []")
  case True
  then show ?thesis by (simp add: parseMultivaluedValue_def trim_Nil)
next
  case False
  then show ?thesis by (simp add: parseMultivaluedValue_def trim_delimiter)
qed

lemma parse_join:
  assumes "\<forall>t \<in> set ts. CHR '';'' \<notin> set t"
  shows "parseMultivaluedValue (JStr (join MULTIVALUED_DELIMITER ts)) =
         Inr (filter (\<lambda>t. t \<noteq> []) (map trim ts))"
proof (cases ts)
  case Nil
  then show ?thesis by (simp add: parse_string trim_Nil)
next
  case (Cons t ts')
  then have "split '';'' (join ''; '' ts) = t # map (\<lambda>t. CHR '' '' # t) ts'"
    using split_join [OF assms] by simp
  then show ?thesis
    by (simp add: parse_string MULTIVALUED_DELIMITER_def Cons trim_space_Cons comp_def)
qed

lemma format_as_spec:
  "map (\<lambda>v. if is_string v then trim (ToString B v) else String_of B v) (filter truthy vs) =
   List.map_filter (encoded_entry B) vs"
proof (induction vs)
  case Nil
  show ?case by (simp add: map_filter_simps)
next
  case (Cons v vs)
  then show ?case by (cases v) (simp_all add: map_filter_simps)
qed

text \<open>
  C3. \<^verbatim>\<open>formatMultivaluedValue\<close> gives the empty string for an absent argument and for the
  empty array; on any array it drops every falsy entry (numeric zero and \<open>false\<close> among
  them), trims the strings, converts the other entries to their string form, and joins
  the results with the two code units semicolon, space.
\<close>

theorem formatMultivaluedValue_spec:
  "formatMultivaluedValue B None = [] \<and>
   formatMultivaluedValue B (Some []) = [] \<and>
   formatMultivaluedValue B (Some vs) =
     join [CHR '';'', CHR '' ''] (List.map_filter (encoded_entry B) vs) \<and>
   formatMultivaluedValue B (Some (us @ JNum 0 # vs)) = formatMultivaluedValue B (Some (us @ vs)) \<and>
   formatMultivaluedValue B (Some (us @ JBool False # vs)) = formatMultivaluedValue B (Some (us @ vs))"
  by (simp add: formatMultivaluedValue_def format_as_spec MULTIVALUED_DELIMITER_def)

theorem formatMultivaluedValue_spec_witness:
  "formatMultivaluedValue example_env (Some [JStr ''a'', JNum 0, JStr '' b '', JBool False, JNum 5]) =
     ''a; b; 5''"
proof -
  let ?vs = "[JStr ''a'', JNum 0, JStr '' b '', JBool False, JNum 5]"
  have "formatMultivaluedValue example_env (Some ?vs) =
        join [CHR '';'', CHR '' ''] (List.map_filter (encoded_entry example_env) ?vs)"
    using formatMultivaluedValue_spec [of example_env ?vs "[]"] by blast
  also have "\<dots> = ''a; b; 5''"
    by code_simp
  finally show ?thesis .
qed

text \<open>
  C2, as stated: decoding the encoding of non-empty scalar values gives the trimmed string
  forms of the truthy ones. It fails for a value that contains a semicolon.
\<close>

theorem decode_encode_counterexample:
  "parseMultivaluedValue (JStr (formatMultivaluedValue example_env (Some [JStr ''a;b'']))) \<noteq>
   Inr (map (\<lambda>v. trim (ToString example_env v)) (filter truthy [JStr ''a;b'']))"
  by code_simp

text \<open>
  C2, amended: when the string form of no truthy entry contains a semicolon, decoding the
  encoding gives the trimmed string forms of the truthy entries, in order and with
  duplicates, without those that are empty after trimming.
\<close>

theorem decode_encode:
  assumes "\<forall>v \<in> set vs. truthy v \<longrightarrow> CHR '';'' \<notin> set (ToString B v)"
  shows "parseMultivaluedValue (JStr (formatMultivaluedValue B (Some vs))) =
         Inr (filter (\<lambda>t. t \<noteq> []) (map (\<lambda>v. trim (ToString B v)) (filter truthy vs)))"
proof -
  let ?ts = "map (\<lambda>v. if is_string v then trim (ToString B v) else String_of B v) (filter truthy vs)"
  have form: "(if is_string v then trim (ToString B v) else String_of B v) =
              (if is_string v then trim (ToString B v) else ToString B v)" for v
    by (cases v) simp_all
  have "\<forall>t \<in> set ?ts. CHR '';'' \<notin> set t"
  proof
    fix t assume "t \<in> set ?ts"
    then obtain v where v: "v \<in> set vs" "truthy v"
      and t: "t = (if is_string v then trim (ToString B v) else ToString B v)"
      by (auto simp: form)
    have "set t \<subseteq> set (ToString B v)" using t set_trim by auto
    with assms v show "CHR '';'' \<notin> set t" by blast
  qed
  then have "parseMultivaluedValue (JStr (join MULTIVALUED_DELIMITER ?ts)) =
             Inr (filter (\<lambda>t. t \<noteq> []) (map trim ?ts))"
    by (rule parse_join)
  moreover have "map trim ?ts = map (\<lambda>v. trim (ToString B v)) (filter truthy vs)"
    by (simp add: form trim_idem)
  moreover have "formatMultivaluedValue B (Some vs) = join MULTIVALUED_DELIMITER ?ts"
    by (simp add: formatMultivaluedValue_def)
  ultimately show ?thesis by (simp only:)
qed

theorem decode_encode_witness:
  "parseMultivaluedValue
     (JStr (formatMultivaluedValue example_env (Some [JStr ''a'', JStr '' '', JNum 0, JStr '' b'', JStr ''a'']))) =
   Inr [''a'', ''b'', ''a'']"
proof -
  let ?vs = "[JStr ''a'', JStr '' '', JNum 0, JStr '' b'', JStr ''a'']"
  have h: "\<forall>v \<in> set ?vs. truthy v \<longrightarrow> CHR '';'' \<notin> set (ToString example_env v)"
    by code_simp
  have "parseMultivaluedValue (JStr (formatMultivaluedValue example_env (Some ?vs))) =
        Inr (filter (\<lambda>t. t \<noteq> []) (map (\<lambda>v. trim (ToString example_env v)) (filter truthy ?vs)))"
    by (rule decode_encode [OF h])
  also have "\<dots> = Inr [''a'', ''b'', ''a'']"
    by code_simp
  finally show ?thesis .
qed

section \<open>changeCase\<close>

lemma map_throwing_Inr:
  "(\<forall>x \<in> set xs. \<exists>y. f x = Inr y) \<Longrightarrow> \<exists>ys. map_throwing f xs = Inr ys"
proof (induction xs)
  case Nil
  show ?case by simp
next
  case (Cons x xs)
  then obtain y ys where "f x = Inr y" and "map_throwing f xs = Inr ys" by auto
  then show ?case by simp
qed

lemma title_word_Inr: "w \<noteq> [] \<Longrightarrow> \<exists>y. title_word B w = Inr y"
  by (cases w) (simp_all add: title_word_def)

text \<open>
  C9, as stated: \<^verbatim>\<open>changeCase\<close> never throws, and returns the string unchanged also when
  \<^verbatim>\<open>structured_pattern\<close> is absent. On such a field the call throws.
\<close>

theorem changeCase_counterexample:
  "changeCase example_env ''abc'' (example_field ''host'' ''xsd:string'' False) = Inl TypeError"
  by (simp add: changeCase_def example_field_def)

text \<open>
  C9, amended: on a field whose \<^verbatim>\<open>structured_pattern\<close> is present, \<^verbatim>\<open>changeCase\<close> returns the
  string unchanged when the syntax is absent or none of the three patterns, returns the
  lower or upper case string for the first two patterns, and returns for the Title case
  pattern when no word between single spaces is empty. With \<^verbatim>\<open>structured_pattern\<close> absent
  the call throws a TypeError.
\<close>

theorem changeCase_returns:
  "(structured_pattern fld = None \<longrightarrow> changeCase B val fld = Inl TypeError) \<and>
   (\<forall>p. structured_pattern fld = Some p \<longrightarrow>
      (pattern_syntax p \<notin> {Some ''{lower_case}'', Some ''{UPPER_CASE}'', Some ''{Title_Case}''} \<longrightarrow>
         changeCase B val fld = Inr val) \<and>
      (pattern_syntax p = Some ''{lower_case}'' \<longrightarrow> changeCase B val fld = Inr (toLowerCase B val)) \<and>
      (pattern_syntax p = Some ''{UPPER_CASE}'' \<longrightarrow> changeCase B val fld = Inr (toUpperCase B val)) \<and>
      (pattern_syntax p = Some ''{Title_Case}'' \<and> [] \<notin> set (split '' '' val) \<longrightarrow>
         (\<exists>r. changeCase B val fld = Inr r)))"
proof -
  have title: "\<exists>r. changeCase B val fld = Inr r"
    if p: "structured_pattern fld = Some p" "pattern_syntax p = Some ''{Title_Case}''"
      and words: "[] \<notin> set (split '' '' val)" for p
  proof -
    have "\<forall>w \<in> set (split '' '' val). \<exists>y. title_word B w = Inr y"
      using words title_word_Inr by metis
    then obtain ws where "map_throwing (title_word B) (split '' '' val) = Inr ws"
      using map_throwing_Inr by blast
    then show ?thesis using p by (simp add: changeCase_def)
  qed
  show ?thesis
    using title by (auto simp: changeCase_def)
qed

theorem changeCase_returns_witness:
  "changeCase example_env ''hello wORLD''
     \<lparr>name = ''host'', datatype_tag = ''xsd:string'', multivalued = False,
      structured_pattern = Some \<lparr>pattern_syntax = Some ''{camelCase}''\<rparr>\<rparr> = Inr ''hello wORLD'' \<and>
   changeCase example_env ''hello wORLD''
     \<lparr>name = ''host'', datatype_tag = ''xsd:string'', multivalued = False,
      structured_pattern = Some \<lparr>pattern_syntax = None\<rparr>\<rparr> = Inr ''hello wORLD'' \<and>
   (\<exists>r. changeCase example_env ''hello wORLD''
     \<lparr>name = ''host'', datatype_tag = ''xsd:string'', multivalued = False,
      structured_pattern = Some \<lparr>pattern_syntax = Some ''{Title_Case}''\<rparr>\<rparr> = Inr r)"
proof -
  have words: "[] \<notin> set (split '' '' ''hello wORLD'')"
    by code_simp
  show ?thesis
    using changeCase_returns [of "\<lparr>name = ''host'', datatype_tag = ''xsd:string'', multivalued = False,
        structured_pattern = Some \<lparr>pattern_syntax = Some ''{camelCase}''\<rparr>\<rparr>" example_env "''hello wORLD''"]
      changeCase_returns [of "\<lparr>name = ''host'', datatype_tag = ''xsd:string'', multivalued = False,
        structured_pattern = Some \<lparr>pattern_syntax = None\<rparr>\<rparr>" example_env "''hello wORLD''"]
      changeCase_returns [of "\<lparr>name = ''host'', datatype_tag = ''xsd:string'', multivalued = False,
        structured_pattern = Some \<lparr>pattern_syntax = Some ''{Title_Case}''\<rparr>\<rparr>" example_env "''hello wORLD''"]
      words
    by simp
qed

section \<open>getStringifiedValue\<close>

text \<open>
  C8. For a field of a date or time kind and a textual value, the text is reinterpreted
  according to \<^verbatim>\<open>serializedDateFormat\<close>; a valid instant replaces the value, and after a failed
  reinterpretation (an invalid date, or undefined) the text itself is stringified. In
  every case the result is a call of \<^verbatim>\<open>stringify\<close> of the coercion engine with the field's
  datatype.
\<close>

theorem getStringifiedValue_date_text:
  "(datatypeIsDateOrTime E dt \<longrightarrow>
      (parseDateString E D serialized (JStr s) dt = JDate (Some t) \<longrightarrow>
         getStringifiedValue E D serialized (JStr s) dt = stringify D (JDate (Some t)) dt) \<and>
      (parseDateString E D serialized (JStr s) dt \<in> {JDate None, JUndefined} \<longrightarrow>
         getStringifiedValue E D serialized (JStr s) dt = stringify D (JStr s) dt)) \<and>
   parseDateString E D DATE_OBJECT (JStr s) dt = parseJsonDate E (JStr s) \<and>
   parseDateString E D INPUT_FORMAT (JStr s) dt = parse D (JStr s) dt \<and>
   parseDateString E D JSON_SCHEMA_FORMAT (JStr s) dt = parseJsonSchemaDate E (JStr s) dt \<and>
   (\<exists>w. getStringifiedValue E D serialized v dt = stringify D w dt)"
  by (auto simp: getStringifiedValue_def parseDateString_def Let_def)

theorem getStringifiedValue_date_text_witness:
  "getStringifiedValue example_env (Datatypes example_env \<lparr>dateFormat = ''yyyy-MM-dd'',
       datetimeFormat = ''yyyy-MM-dd HH:mm'', timeFormat = ''HH:mm''\<rparr>) INPUT_FORMAT (JStr ''42'') ''xsd:date'' =
     JStr ''42'' \<and>
   getStringifiedValue example_env (Datatypes example_env \<lparr>dateFormat = ''yyyy-MM-dd'',
       datetimeFormat = ''yyyy-MM-dd HH:mm'', timeFormat = ''HH:mm''\<rparr>) INPUT_FORMAT (JStr ''soon'') ''xsd:date'' =
     JStr ''soon''"
proof -
  let ?D = "Datatypes example_env \<lparr>dateFormat = ''yyyy-MM-dd'',
       datetimeFormat = ''yyyy-MM-dd HH:mm'', timeFormat = ''HH:mm''\<rparr>"
  have kind: "datatypeIsDateOrTime example_env ''xsd:date''"
    by code_simp
  have valid: "parseDateString example_env ?D INPUT_FORMAT (JStr ''42'') ''xsd:date'' = JDate (Some 42)"
    by code_simp
  have failed: "parseDateString example_env ?D INPUT_FORMAT (JStr ''soon'') ''xsd:date'' \<in> {JDate None, JUndefined}"
    by code_simp
  have 1: "stringify ?D (JDate (Some 42)) ''xsd:date'' = JStr ''42''"
    by code_simp
  have 2: "stringify ?D (JStr ''soon'') ''xsd:date'' = JStr ''soon''"
    by code_simp
  have a: "getStringifiedValue example_env ?D INPUT_FORMAT (JStr ''42'') ''xsd:date'' =
           stringify ?D (JDate (Some 42)) ''xsd:date''"
    using getStringifiedValue_date_text [where E = example_env and dt = "''xsd:date''" and D = ?D
        and serialized = INPUT_FORMAT and s = "''42''" and t = 42] kind valid
    by blast
  have b: "getStringifiedValue example_env ?D INPUT_FORMAT (JStr ''soon'') ''xsd:date'' =
           stringify ?D (JStr ''soon'') ''xsd:date''"
    using getStringifiedValue_date_text [where E = example_env and dt = "''xsd:date''" and D = ?D
        and serialized = INPUT_FORMAT and s = "''soon''"] kind failed
    by blast
  show ?thesis
    using a b 1 2 by simp
qed

section \<open>dataObjectToArray\<close>

lemma findIndex_lower: "- 1 \<le> findIndex p xs"
  by (induction xs) (auto simp: Let_def)

lemma findIndex_negative: "findIndex p xs < 0 \<longleftrightarrow> (\<forall>x \<in> set xs. \<not> p x)"
  using findIndex_lower [of p] by (induction xs) (auto simp: Let_def)

lemma findIndex_found:
  "0 \<le> findIndex p xs \<Longrightarrow> nat (findIndex p xs) < length xs \<and> p (xs ! nat (findIndex p xs))"
proof (induction xs)
  case Nil
  then show ?case by simp
next
  case (Cons x xs)
  show ?case
  proof (cases "p x")
    case True
    then show ?thesis by simp
  next
    case False
    with Cons.prems have r: "0 \<le> findIndex p xs"
      by (auto simp: Let_def split: if_splits)
    then have "nat (findIndex p xs + 1) = Suc (nat (findIndex p xs))" by simp
    with Cons.IH [OF r] r False show ?thesis by (simp add: Let_def)
  qed
qed

lemma findIndex_distinct:
  "distinct (map f xs) \<Longrightarrow> i < length xs \<Longrightarrow> findIndex (\<lambda>x. f x = f (xs ! i)) xs = int i"
proof (induction xs arbitrary: i)
  case Nil
  then show ?case by simp
next
  case (Cons x xs)
  show ?case
  proof (cases i)
    case 0
    then show ?thesis by simp
  next
    case (Suc j)
    with Cons.prems have "f x \<noteq> f (xs ! j)" by auto
    moreover have "findIndex (\<lambda>x. f x = f (xs ! j)) xs = int j"
      using Cons Suc by simp
    ultimately show ?thesis using Suc by (simp add: Let_def)
  qed
qed

lemma findIndex_name:
  "findIndex (\<lambda>f. name f = k) fl < 0 \<longleftrightarrow> k \<notin> name ` set fl"
  unfolding findIndex_negative by (metis image_iff)

lemma set_entries: "set (entries obj) = set obj"
  by (auto simp: entries_def)

lemma entries_filter: "entries (filter P obj) = filter P (entries obj)"
  by (simp add: entries_def filter_sort conj_commute)

lemma distinct_entries: "distinct (map fst obj) \<Longrightarrow> distinct (map fst (entries obj))"
proof -
  assume d: "distinct (map fst obj)"
  let ?P = "\<lambda>kv :: string \<times> jsval. is_array_index (fst kv)"
  have "mset (entries obj) = filter_mset ?P (mset obj) + filter_mset (\<lambda>kv. \<not> ?P kv) (mset obj)"
    by (simp add: entries_def)
  also have "\<dots> = mset obj"
    by (rule multiset_partition [symmetric])
  finally have "mset (entries obj) = mset obj" .
  then have "mset (map fst (entries obj)) = mset (map fst obj)"
    by (metis mset_map)
  with d show ?thesis by (metis distinct_count_atmost_1 set_mset_mset)
qed

lemma entry_to_array_length: "length (snd (entry_to_array E D sdf fl st e)) = length (snd st)"
  by (simp add: entry_to_array_def Let_def)

lemma fold_entries_length: "length (snd (foldl (entry_to_array E D sdf fl) st es)) = length (snd st)"
  by (induction es arbitrary: st) (simp_all add: entry_to_array_length)

lemma entry_to_array_warning:
  "fst (entry_to_array E D sdf fl st e) =
   fst st @ (if fst e \<in> name ` set fl then [] else [''Could not map data object key '' @ fst e])"
  by (simp add: entry_to_array_def Let_def findIndex_name)

lemma fold_entries_warnings:
  "fst (foldl (entry_to_array E D sdf fl) st es) =
   fst st @ map (\<lambda>e. ''Could not map data object key '' @ fst e) (filter (\<lambda>e. fst e \<notin> name ` set fl) es)"
  by (induction es arbitrary: st) (simp_all add: entry_to_array_warning)

lemma entry_to_array_unknown:
  "fst e \<notin> name ` set fl \<Longrightarrow> snd (entry_to_array E D sdf fl st e) = snd st"
  by (simp add: entry_to_array_def Let_def findIndex_name)

lemma entry_to_array_snd:
  "snd st = snd st' \<Longrightarrow> snd (entry_to_array E D sdf fl st e) = snd (entry_to_array E D sdf fl st' e)"
  by (simp add: entry_to_array_def Let_def)

lemma fold_entries_known:
  "snd st = snd st' \<Longrightarrow>
   snd (foldl (entry_to_array E D sdf fl) st es) =
   snd (foldl (entry_to_array E D sdf fl) st' (filter (\<lambda>e. fst e \<in> name ` set fl) es))"
proof (induction es arbitrary: st st')
  case Nil
  then show ?case by simp
next
  case (Cons e es)
  show ?case
  proof (cases "fst e \<in> name ` set fl")
    case True
    have "snd (entry_to_array E D sdf fl st e) = snd (entry_to_array E D sdf fl st' e)"
      using Cons.prems by (rule entry_to_array_snd)
    from Cons.IH [OF this] True show ?thesis by simp
  next
    case False
    then have "snd (entry_to_array E D sdf fl st e) = snd st'"
      using Cons.prems by (simp add: entry_to_array_unknown)
    from Cons.IH [OF this] False show ?thesis by simp
  qed
qed

lemma entry_to_array_other:
  "findIndex (\<lambda>f. name f = fst e) fl \<noteq> int i \<Longrightarrow> snd (entry_to_array E D sdf fl st e) ! i = snd st ! i"
  by (auto simp: entry_to_array_def Let_def)

lemma fold_entries_other:
  "\<forall>e \<in> set es. findIndex (\<lambda>f. name f = fst e) fl \<noteq> int i \<Longrightarrow>
   snd (foldl (entry_to_array E D sdf fl) st es) ! i = snd st ! i"
  by (induction es arbitrary: st) (simp_all add: entry_to_array_other)

text \<open>
  C7. The array returned by \<^verbatim>\<open>dataObjectToArray\<close> has the length of the field list. An entry
  whose key is no field's name adds one warning and nothing else: the array is the one
  obtained without these entries, and the call returns. A field whose name is no key of
  the record keeps the empty string.
\<close>

theorem dataObjectToArray_shape:
  "length (snd (dataObjectToArray E dataObject fieldList options)) = length fieldList \<and>
   fst (dataObjectToArray E dataObject fieldList options) =
     map (\<lambda>e. ''Could not map data object key '' @ fst e)
       (filter (\<lambda>e. fst e \<notin> name ` set fieldList) (entries dataObject)) \<and>
   snd (dataObjectToArray E dataObject fieldList options) =
     snd (dataObjectToArray E (filter (\<lambda>e. fst e \<in> name ` set fieldList) dataObject) fieldList options) \<and>
   (\<forall>i < length fieldList. name (fieldList ! i) \<notin> fst ` set dataObject \<longrightarrow>
      snd (dataObjectToArray E dataObject fieldList options) ! i = JStr [])"
proof -
  have untouched: "snd (dataObjectToArray E dataObject fieldList options) ! i = JStr []"
    if i: "i < length fieldList" and absent: "name (fieldList ! i) \<notin> fst ` set dataObject" for i
  proof -
    have "findIndex (\<lambda>f. name f = fst e) fieldList \<noteq> int i" if e: "e \<in> set (entries dataObject)" for e
    proof
      assume idx: "findIndex (\<lambda>f. name f = fst e) fieldList = int i"
      then have "name (fieldList ! i) = fst e"
        using findIndex_found [of "\<lambda>f. name f = fst e" fieldList] by simp
      with e absent show False by (auto simp: set_entries)
    qed
    then show ?thesis
      using i by (simp add: dataObjectToArray_def Let_def fold_entries_other)
  qed
  show ?thesis
    using untouched
    by (simp add: dataObjectToArray_def Let_def fold_entries_length fold_entries_warnings
        entries_filter fold_entries_known [of _ _ E])
qed

theorem dataObjectToArray_shape_witness:
  "dataObjectToArray example_env [(''unknown_key'', JNum 1), (''amount'', JNum 42)]
     [example_field ''amount'' ''xsd:integer'' False, example_field ''tags'' ''xsd:string'' True]
     default_object_options =
   ([''Could not map data object key unknown_key''], [JStr ''42'', JStr []])"
proof -
  let ?obj = "[(''unknown_key'', JNum 1), (''amount'', JNum 42)]"
  let ?fl = "[example_field ''amount'' ''xsd:integer'' False, example_field ''tags'' ''xsd:string'' True]"
  have absent: "name (?fl ! 1) \<notin> fst ` set ?obj"
    by code_simp
  have "\<forall>i < length ?fl. name (?fl ! i) \<notin> fst ` set ?obj \<longrightarrow>
          snd (dataObjectToArray example_env ?obj ?fl default_object_options) ! i = JStr []"
    using dataObjectToArray_shape [of example_env ?obj ?fl default_object_options] by blast
  moreover have "1 < length ?fl"
    by simp
  ultimately have "snd (dataObjectToArray example_env ?obj ?fl default_object_options) ! 1 = JStr []"
    using absent by blast
  moreover have "dataObjectToArray example_env ?obj ?fl default_object_options =
    ([''Could not map data object key unknown_key''],
     [JStr ''42'', snd (dataObjectToArray example_env ?obj ?fl default_object_options) ! 1])"
    by code_simp
  ultimately show ?thesis by simp
qed

section \<open>dataArrayToObject: failures\<close>

lemma getParsedValue_Inl:
  "getParsedValue E D opts v dt = Inl e \<Longrightarrow>
   parseFailureBehavior opts = THROW_ERROR \<and> parse D v dt = JUndefined \<and>
   e = Error (parse_error_message E v dt)"
  by (auto simp: getParsedValue_def Let_def split: if_splits parse_failure_behavior.splits)

lemma getParsedValue_throw:
  "parseFailureBehavior opts = THROW_ERROR \<Longrightarrow> parse D v dt = JUndefined \<Longrightarrow>
   getParsedValue E D opts v dt = Inl (Error (parse_error_message E v dt))"
  by (simp add: getParsedValue_def)

lemma getParsedValue_parsed:
  "parse D v dt \<noteq> JUndefined \<Longrightarrow>
   getParsedValue E D opts v dt = Inr (formatDatesAndTimes E D (dateBehavior opts) (parse D v dt) dt)"
  by (simp add: getParsedValue_def)

lemma map_throwing_find:
  "map_throwing f xs =
   (case List.find (\<lambda>x. isl (f x)) xs of
      None \<Rightarrow> Inr (map (\<lambda>x. projr (f x)) xs)
    | Some x \<Rightarrow> Inl (projl (f x)))"
  by (induction xs) (auto split: sum.splits option.splits)

lemma find_append_cases:
  "List.find P (xs @ ys) = (case List.find P xs of None \<Rightarrow> List.find P ys | Some x \<Rightarrow> Some x)"
  by (induction xs) auto

lemma find_map_comp: "List.find P (map g xs) = map_option g (List.find (\<lambda>x. P (g x)) xs)"
  by (induction xs) auto

lemma cell_to_object_failing:
  assumes "parseFailureBehavior opts = THROW_ERROR"
    and "List.find (fails_to_parse D) (cell_coercions fl cell idx) = Some c"
  shows "cell_to_object E D opts fl obj cell idx = Inl (Error (parse_error_message E (fst c) (snd c)))"
proof -
  from assms(2) have live: "\<not> (cell = JStr [] \<or> cell = JNull \<or> cell = JUndefined)" "idx < length fl"
    by (auto simp: cell_coercions_def split: if_splits)
  show ?thesis
  proof (cases "multivalued (fl ! idx)")
    case False
    with assms(2) live have c: "c = (cell, datatype_tag (fl ! idx))" and "parse D cell (datatype_tag (fl ! idx)) = JUndefined"
      by (auto simp: cell_coercions_def fails_to_parse_def split: if_splits)
    then show ?thesis
      using live False assms(1) by (simp add: cell_to_object_def getParsedValue_throw)
  next
    case True
    let ?dt = "datatype_tag (fl ! idx)"
    let ?f = "\<lambda>cellElement. getParsedValue E D opts (JStr cellElement) ?dt"
    from assms(2) live True obtain tokens where
      tokens: "parseMultivaluedValue cell = Inr tokens" and
      found: "List.find (fails_to_parse D) (map (\<lambda>t. (JStr t, ?dt)) tokens) = Some c"
      by (auto simp: cell_coercions_def Let_def split: if_splits sum.splits)
    have same: "isl (?f t) = fails_to_parse D (JStr t, ?dt)" for t
      using assms(1) by (auto simp: getParsedValue_def fails_to_parse_def Let_def)
    from found obtain t where t: "List.find (\<lambda>t. isl (?f t)) tokens = Some t" and c: "c = (JStr t, ?dt)"
      by (auto simp: find_map_comp same)
    then have "fails_to_parse D (JStr t, ?dt)"
      using same by (auto simp: find_Some_iff)
    then have "?f t = Inl (Error (parse_error_message E (JStr t) ?dt))"
      using assms(1) by (simp add: getParsedValue_throw fails_to_parse_def)
    then have "map_throwing ?f tokens = Inl (Error (parse_error_message E (JStr t) ?dt))"
      using t by (simp add: map_throwing_find)
    then show ?thesis
      using live True tokens c by (simp add: cell_to_object_def)
  qed
qed

lemma cell_to_object_Error:
  assumes "cell_to_object E D opts fl obj cell idx = Inl (Error m)"
  shows "parseFailureBehavior opts = THROW_ERROR \<and>
         (\<exists>c. List.find (fails_to_parse D) (cell_coercions fl cell idx) = Some c)"
proof -
  from assms have live: "\<not> (cell = JStr [] \<or> cell = JNull \<or> cell = JUndefined)" "idx < length fl"
    by (auto simp: cell_to_object_def split: if_splits)
  show ?thesis
  proof (cases "multivalued (fl ! idx)")
    case False
    with assms live have "getParsedValue E D opts cell (datatype_tag (fl ! idx)) = Inl (Error m)"
      by (auto simp: cell_to_object_def Let_def split: sum.splits)
    from getParsedValue_Inl [OF this] show ?thesis
      using live False by (simp add: cell_coercions_def fails_to_parse_def)
  next
    case True
    let ?dt = "datatype_tag (fl ! idx)"
    let ?f = "\<lambda>cellElement. getParsedValue E D opts (JStr cellElement) ?dt"
    from assms live True obtain tokens where
      tokens: "parseMultivaluedValue cell = Inr tokens" and
      thrown: "map_throwing ?f tokens = Inl (Error m)"
      by (auto simp: cell_to_object_def Let_def parseMultivaluedValue_def
          split: sum.splits if_splits jsval.splits)
    then obtain t where t: "List.find (\<lambda>t. isl (?f t)) tokens = Some t"
      by (auto simp: map_throwing_find split: option.splits)
    then have "isl (?f t)" by (auto simp: find_Some_iff)
    then obtain e where e: "?f t = Inl e" by (cases "?f t") auto
    from getParsedValue_Inl [OF e] have throw: "parseFailureBehavior opts = THROW_ERROR"
      and "fails_to_parse D (JStr t, ?dt)"
      by (simp_all add: fails_to_parse_def)
    then have "t \<in> set tokens \<and> fails_to_parse D (JStr t, ?dt)"
      using t by (auto simp: find_Some_iff)
    then have "List.find (fails_to_parse D) (map (\<lambda>t. (JStr t, ?dt)) tokens) \<noteq> None"
      by (auto simp: find_None_iff)
    then show ?thesis
      using throw live True tokens by (auto simp: cell_coercions_def)
  qed
qed

lemma forEach_cell_failing:
  assumes "parseFailureBehavior opts = THROW_ERROR"
  shows "(case List.find (fails_to_parse D) (coercions fl cells idx) of
            Some c \<Rightarrow>
              forEach_cell E D opts fl cells idx obj = Inl (Error (parse_error_message E (fst c) (snd c))) \<or>
              forEach_cell E D opts fl cells idx obj = Inl TypeError
          | None \<Rightarrow> (\<forall>m. forEach_cell E D opts fl cells idx obj \<noteq> Inl (Error m)))"
proof (induction cells arbitrary: idx obj)
  case Nil
  show ?case by simp
next
  case (Cons cell cells)
  show ?case
  proof (cases "List.find (fails_to_parse D) (cell_coercions fl cell idx)")
    case (Some c)
    then show ?thesis
      using cell_to_object_failing [OF assms Some, of E obj]
      by (simp add: find_append_cases)
  next
    case None
    then have noerr: "cell_to_object E D opts fl obj cell idx \<noteq> Inl (Error m)" for m
      using cell_to_object_Error [of E D opts fl obj cell idx m] by auto
    show ?thesis
    proof (cases "cell_to_object E D opts fl obj cell idx")
      case (Inl e)
      with noerr have "e = TypeError" by (cases e) auto
      with Inl None show ?thesis
        by (auto simp: find_append_cases split: option.splits)
    next
      case (Inr obj')
      with None Cons.IH [of "Suc idx" obj'] show ?thesis
        by (auto simp: find_append_cases split: option.splits)
    qed
  qed
qed

lemma forEach_cell_Error:
  "forEach_cell E D opts fl cells idx obj = Inl (Error m) \<Longrightarrow> parseFailureBehavior opts = THROW_ERROR"
proof (induction cells arbitrary: idx obj)
  case Nil
  then show ?case by simp
next
  case (Cons cell cells)
  then show ?case
    using cell_to_object_Error [of E D opts fl obj cell idx m]
    by (auto split: sum.splits)
qed

lemma cell_to_object_TypeError:
  assumes "cell_to_object E D opts fl obj cell idx = Inl TypeError"
  shows "\<not> skipped cell \<and> (length fl \<le> idx \<or> \<not> is_string cell)"
proof -
  have "getParsedValue E D opts v dt \<noteq> Inl TypeError" for v dt
    using getParsedValue_Inl [of E D opts v dt TypeError] by auto
  moreover have "map_throwing (\<lambda>t. getParsedValue E D opts (JStr t) dt) ts \<noteq> Inl TypeError" for dt ts
  proof
    assume "map_throwing (\<lambda>t. getParsedValue E D opts (JStr t) dt) ts = Inl TypeError"
    then obtain t where "isl (getParsedValue E D opts (JStr t) dt)"
      and "projl (getParsedValue E D opts (JStr t) dt) = TypeError"
      by (auto simp: map_throwing_find find_Some_iff split: option.splits)
    then have "getParsedValue E D opts (JStr t) dt = Inl TypeError"
      by (cases "getParsedValue E D opts (JStr t) dt") auto
    then show False
      using getParsedValue_Inl [of E D opts "JStr t" dt TypeError] by auto
  qed
  ultimately show ?thesis
    using assms
    by (cases cell)
      (auto simp: cell_to_object_def skipped_def Let_def parseMultivaluedValue_def
        split: if_splits sum.splits)
qed

lemma forEach_cell_TypeError:
  "forEach_cell E D opts fl cells idx obj = Inl TypeError \<Longrightarrow>
   \<exists>j < length cells. \<not> skipped (cells ! j) \<and> (length fl \<le> idx + j \<or> \<not> is_string (cells ! j))"
proof (induction cells arbitrary: idx obj)
  case Nil
  then show ?case by simp
next
  case (Cons cell cells)
  show ?case
  proof (cases "cell_to_object E D opts fl obj cell idx")
    case (Inl e)
    with Cons.prems have "cell_to_object E D opts fl obj cell idx = Inl TypeError" by simp
    from cell_to_object_TypeError [OF this] show ?thesis
      by (intro exI [of _ 0]) simp
  next
    case (Inr obj')
    with Cons.prems have "forEach_cell E D opts fl cells (Suc idx) obj' = Inl TypeError" by simp
    from Cons.IH [OF this] obtain j where "j < length cells"
      "\<not> skipped (cells ! j) \<and> (length fl \<le> Suc idx + j \<or> \<not> is_string (cells ! j))" by blast
    then show ?thesis
      by (intro exI [of _ "Suc j"]) simp
  qed
qed

lemma forEach_cell_out_of_range:
  assumes "j < length cells" and "length fl \<le> idx + j" and "\<not> skipped (cells ! j)"
  shows "\<exists>e. forEach_cell E D opts fl cells idx obj = Inl e"
  using assms
proof (induction cells arbitrary: idx obj j)
  case Nil
  then show ?case by simp
next
  case (Cons cell cells)
  show ?case
  proof (cases "cell_to_object E D opts fl obj cell idx")
    case (Inl e)
    then show ?thesis by simp
  next
    case (Inr obj')
    show ?thesis
    proof (cases j)
      case 0
      with Cons.prems have "cell_to_object E D opts fl obj cell idx = Inl TypeError"
        by (simp add: cell_to_object_def skipped_def)
      with Inr show ?thesis by simp
    next
      case (Suc j')
      with Cons.prems have "\<exists>e. forEach_cell E D opts fl cells (Suc idx) obj' = Inl e"
        by (intro Cons.IH [of j']) simp_all
      with Inr show ?thesis by simp
    qed
  qed
qed

lemma dataArrayToObject_engine:
  "dataArrayToObject E arr fl opts = forEach_cell E (engine E opts) opts fl arr 0 empty_object"
  by (simp add: dataArrayToObject_def engine_def)

lemma coercions_take:
  "length fl \<le> n \<Longrightarrow> coercions fl cells idx = coercions fl (take (n - idx) cells) idx"
proof (induction cells arbitrary: idx)
  case Nil
  show ?case by simp
next
  case (Cons cell cells)
  show ?case
  proof (cases "idx < n")
    case True
    then have "n - idx = Suc (n - Suc idx)" by simp
    with Cons show ?thesis by simp
  next
    case False
    with Cons.prems have far: "length fl \<le> idx" by simp
    have "coercions fl cs k = []" if "length fl \<le> k" for cs k
      using that by (induction cs arbitrary: k) (simp_all add: cell_coercions_def)
    with far False show ?thesis by (simp add: cell_coercions_def)
  qed
qed

text \<open>The outcome of one cell, and of the loop, read off the attempts.\<close>

lemma isl_getParsedValue:
  "isl (getParsedValue E D opts v dt) \<longleftrightarrow>
   parseFailureBehavior opts = THROW_ERROR \<and> parse D v dt = JUndefined"
  by (auto simp: getParsedValue_def Let_def split: parse_failure_behavior.splits)

lemma parseMultivaluedValue_Inl: "parseMultivaluedValue v = Inl e \<Longrightarrow> e = TypeError"
  by (cases v) (auto simp: parseMultivaluedValue_def split: if_splits)

lemma cell_to_object_halts:
  "case List.find (halts D (parseFailureBehavior opts)) (cell_attempts fl cell idx) of
     Some (Coerce v dt) \<Rightarrow>
       cell_to_object E D opts fl obj cell idx = Inl (Error (parse_error_message E v dt))
   | Some Fault \<Rightarrow> cell_to_object E D opts fl obj cell idx = Inl TypeError
   | None \<Rightarrow> (\<exists>obj'. cell_to_object E D opts fl obj cell idx = Inr obj')"
proof (cases "cell = JStr [] \<or> cell = JNull \<or> cell = JUndefined")
  case True
  then show ?thesis by (auto simp: cell_attempts_def cell_to_object_def)
next
  case live: False
  show ?thesis
  proof (cases "length fl \<le> idx")
    case True
    with live show ?thesis by (simp add: cell_attempts_def cell_to_object_def)
  next
    case inside: False
    let ?dt = "datatype_tag (fl ! idx)"
    let ?f = "\<lambda>cellElement. getParsedValue E D opts (JStr cellElement) ?dt"
    show ?thesis
    proof (cases "multivalued (fl ! idx)")
      case False
      show ?thesis
      proof (cases "getParsedValue E D opts cell ?dt")
        case (Inl e)
        from getParsedValue_Inl [OF this] show ?thesis
          using live inside False Inl by (simp add: cell_attempts_def cell_to_object_def)
      next
        case (Inr v)
        then have "\<not> isl (getParsedValue E D opts cell ?dt)" by simp
        then have "\<not> halts D (parseFailureBehavior opts) (Coerce cell ?dt)"
          by (simp add: isl_getParsedValue)
        then show ?thesis
          using live inside False Inr by (simp add: cell_attempts_def cell_to_object_def)
      qed
    next
      case True
      show ?thesis
      proof (cases "parseMultivaluedValue cell")
        case (Inl e)
        with parseMultivaluedValue_Inl [OF Inl] show ?thesis
          using live inside True by (simp add: cell_attempts_def cell_to_object_def)
      next
        case (Inr tokens)
        have found: "List.find (halts D (parseFailureBehavior opts)) (cell_attempts fl cell idx) =
                     map_option (\<lambda>t. Coerce (JStr t) ?dt) (List.find (\<lambda>t. isl (?f t)) tokens)"
          using live inside True Inr
          by (simp add: cell_attempts_def find_map_comp isl_getParsedValue)
        show ?thesis
        proof (cases "List.find (\<lambda>t. isl (?f t)) tokens")
          case None
          then obtain vals where "map_throwing ?f tokens = Inr vals"
            by (simp add: map_throwing_find)
          then show ?thesis
            using live inside True Inr found None by (simp add: cell_to_object_def Let_def)
        next
          case (Some t)
          then have "isl (?f t)" by (auto simp: find_Some_iff)
          then obtain e where e: "?f t = Inl e" by (cases "?f t") auto
          from getParsedValue_Inl [OF e] have "e = Error (parse_error_message E (JStr t) ?dt)"
            by simp
          with e Some have "map_throwing ?f tokens = Inl (Error (parse_error_message E (JStr t) ?dt))"
            by (simp add: map_throwing_find)
          then show ?thesis
            using live inside True Inr found Some by (simp add: cell_to_object_def)
        qed
      qed
    qed
  qed
qed

lemma forEach_cell_halts:
  "case List.find (halts D (parseFailureBehavior opts)) (attempts fl cells idx) of
     Some (Coerce v dt) \<Rightarrow>
       forEach_cell E D opts fl cells idx obj = Inl (Error (parse_error_message E v dt))
   | Some Fault \<Rightarrow> forEach_cell E D opts fl cells idx obj = Inl TypeError
   | None \<Rightarrow> (\<exists>obj'. forEach_cell E D opts fl cells idx obj = Inr obj')"
proof (induction cells arbitrary: idx obj)
  case Nil
  show ?case by simp
next
  case (Cons cell cells)
  note cell = cell_to_object_halts [where D = D and opts = opts and fl = fl and cell = cell
      and idx = idx and E = E and obj = obj]
  show ?case
  proof (cases "List.find (halts D (parseFailureBehavior opts)) (cell_attempts fl cell idx)")
    case (Some a)
    with cell show ?thesis
      by (cases a) (simp_all add: find_append_cases)
  next
    case None
    with cell obtain obj' where "cell_to_object E D opts fl obj cell idx = Inr obj'" by auto
    then have step: "forEach_cell E D opts fl (cell # cells) idx obj =
                forEach_cell E D opts fl cells (Suc idx) obj'"
      by simp
    from None Cons.IH [where idx = "Suc idx" and obj = obj'] show ?thesis
      unfolding step by (simp add: find_append_cases)
  qed
qed

text \<open>
  C4. The conversion halts at the first attempt, in the order of the loop, that is a fault
  or, under \<^verbatim>\<open>THROW_ERROR\<close>, a per-value coercion with an undefined parse result. Halting at
  such a coercion, it returns no record and throws the error whose message holds the raw
  value and the datatype; halting at a fault it throws a TypeError; otherwise it returns
  a record. So under \<^verbatim>\<open>KEEP_ORIGINAL\<close> and \<^verbatim>\<open>REMOVE\<close> no parse error is ever thrown, and a
  record within the field list whose cells are strings or skipped raises no TypeError.
\<close>

theorem parse_failure_policy:
  "(case List.find (halts (engine E opts) (parseFailureBehavior opts)) (attempts fl arr 0) of
      Some (Coerce v dt) \<Rightarrow>
        parseFailureBehavior opts = THROW_ERROR \<and> parse (engine E opts) v dt = JUndefined \<and>
        dataArrayToObject E arr fl opts =
          Inl (Error (''Unable to parse value '' @ [CHR 0x22] @ ToString E v @ [CHR 0x22] @
                      '' as datatype '' @ [CHR 0x22] @ dt @ [CHR 0x22]))
    | Some Fault \<Rightarrow> dataArrayToObject E arr fl opts = Inl TypeError
    | None \<Rightarrow> (\<exists>obj. dataArrayToObject E arr fl opts = Inr obj)) \<and>
   (parseFailureBehavior opts \<noteq> THROW_ERROR \<longrightarrow>
      (\<forall>m. dataArrayToObject E arr fl opts \<noteq> Inl (Error m))) \<and>
   (length arr \<le> length fl \<and> (\<forall>cell \<in> set arr. skipped cell \<or> is_string cell) \<longrightarrow>
      dataArrayToObject E arr fl opts \<noteq> Inl TypeError)"
proof (intro conjI impI)
  let ?halt = "List.find (halts (engine E opts) (parseFailureBehavior opts)) (attempts fl arr 0)"
  note loop = forEach_cell_halts [where D = "engine E opts" and opts = opts and fl = fl
      and cells = arr and idx = 0 and E = E and obj = empty_object]
  show "case ?halt of
      Some (Coerce v dt) \<Rightarrow>
        parseFailureBehavior opts = THROW_ERROR \<and> parse (engine E opts) v dt = JUndefined \<and>
        dataArrayToObject E arr fl opts =
          Inl (Error (''Unable to parse value '' @ [CHR 0x22] @ ToString E v @ [CHR 0x22] @
                      '' as datatype '' @ [CHR 0x22] @ dt @ [CHR 0x22]))
    | Some Fault \<Rightarrow> dataArrayToObject E arr fl opts = Inl TypeError
    | None \<Rightarrow> (\<exists>obj. dataArrayToObject E arr fl opts = Inr obj)"
  proof (cases ?halt)
    case None
    with loop show ?thesis by (simp add: dataArrayToObject_engine)
  next
    case (Some a)
    then have "halts (engine E opts) (parseFailureBehavior opts) a"
      by (auto simp: find_Some_iff)
    with Some loop show ?thesis
      by (cases a) (simp_all add: dataArrayToObject_engine parse_error_message_def)
  qed
next
  assume "parseFailureBehavior opts \<noteq> THROW_ERROR"
  then show "\<forall>m. dataArrayToObject E arr fl opts \<noteq> Inl (Error m)"
    unfolding dataArrayToObject_engine using forEach_cell_Error by blast
next
  assume wf: "length arr \<le> length fl \<and> (\<forall>cell \<in> set arr. skipped cell \<or> is_string cell)"
  show "dataArrayToObject E arr fl opts \<noteq> Inl TypeError"
  proof
    assume "dataArrayToObject E arr fl opts = Inl TypeError"
    then obtain j where "j < length arr" "\<not> skipped (arr ! j)"
      "length fl \<le> 0 + j \<or> \<not> is_string (arr ! j)"
      unfolding dataArrayToObject_engine using forEach_cell_TypeError by blast
    with wf show False by (metis add_0 leD le_trans nth_mem)
  qed
qed

theorem parse_failure_policy_witness:
  "dataArrayToObject example_env [JStr ''7'', JStr ''not-a-number'', JStr ''8'', JStr ''9'']
     [example_field ''count'' ''xsd:integer'' False, example_field ''amount'' ''xsd:integer'' False,
      example_field ''rank'' ''xsd:integer'' False]
     (default_array_options\<lparr>parseFailureBehavior := THROW_ERROR\<rparr>) =
   Inl (Error (''Unable to parse value '' @ [CHR 0x22] @ ''not-a-number'' @ [CHR 0x22] @
               '' as datatype '' @ [CHR 0x22] @ ''xsd:integer'' @ [CHR 0x22])) \<and>
   dataArrayToObject example_env [JStr ''7'', JStr ''not-a-number'']
     [example_field ''count'' ''xsd:integer'' False, example_field ''amount'' ''xsd:integer'' False]
     default_array_options \<noteq>
   Inl (Error (''Unable to parse value '' @ [CHR 0x22] @ ''not-a-number'' @ [CHR 0x22] @
               '' as datatype '' @ [CHR 0x22] @ ''xsd:integer'' @ [CHR 0x22]))"
proof -
  let ?arr = "[JStr ''7'', JStr ''not-a-number'', JStr ''8'', JStr ''9'']"
  let ?fl = "[example_field ''count'' ''xsd:integer'' False, example_field ''amount'' ''xsd:integer'' False,
              example_field ''rank'' ''xsd:integer'' False]"
  let ?opts = "default_array_options\<lparr>parseFailureBehavior := THROW_ERROR\<rparr>"
  let ?arr' = "[JStr ''7'', JStr ''not-a-number'']"
  let ?fl' = "[example_field ''count'' ''xsd:integer'' False, example_field ''amount'' ''xsd:integer'' False]"
  have first: "List.find (halts (engine example_env ?opts) (parseFailureBehavior ?opts)) (attempts ?fl ?arr 0) =
               Some (Coerce (JStr ''not-a-number'') ''xsd:integer'')"
    by code_simp
  have shown: "ToString example_env (JStr ''not-a-number'') = ''not-a-number''"
    by simp
  have keep: "parseFailureBehavior default_array_options \<noteq> THROW_ERROR"
    by code_simp
  have "case List.find (halts (engine example_env ?opts) (parseFailureBehavior ?opts)) (attempts ?fl ?arr 0) of
      Some (Coerce v dt) \<Rightarrow>
        parseFailureBehavior ?opts = THROW_ERROR \<and> parse (engine example_env ?opts) v dt = JUndefined \<and>
        dataArrayToObject example_env ?arr ?fl ?opts =
          Inl (Error (''Unable to parse value '' @ [CHR 0x22] @ ToString example_env v @ [CHR 0x22] @
                      '' as datatype '' @ [CHR 0x22] @ dt @ [CHR 0x22]))
    | Some Fault \<Rightarrow> dataArrayToObject example_env ?arr ?fl ?opts = Inl TypeError
    | None \<Rightarrow> (\<exists>obj. dataArrayToObject example_env ?arr ?fl ?opts = Inr obj)"
    using parse_failure_policy [where E = example_env and opts = ?opts and fl = ?fl and arr = ?arr]
    by blast
  then have thrown: "dataArrayToObject example_env ?arr ?fl ?opts =
      Inl (Error (''Unable to parse value '' @ [CHR 0x22] @ ''not-a-number'' @ [CHR 0x22] @
                  '' as datatype '' @ [CHR 0x22] @ ''xsd:integer'' @ [CHR 0x22]))"
    unfolding first using shown by simp
  have "\<forall>m. dataArrayToObject example_env ?arr' ?fl' default_array_options \<noteq> Inl (Error m)"
    using parse_failure_policy [where E = example_env and opts = default_array_options
        and fl = ?fl' and arr = ?arr'] keep
    by blast
  with thrown show ?thesis by blast
qed

text \<open>
  C10, as stated: a cell beyond the field list that is not skipped makes the conversion
  fail with a TypeError. Under \<^verbatim>\<open>THROW_ERROR\<close> a parse failure of an earlier cell is thrown
  first.
\<close>

theorem out_of_range_cell_counterexample:
  "dataArrayToObject example_env [JStr ''x'', JStr ''y'']
     [example_field ''amount'' ''xsd:integer'' False]
     (default_array_options\<lparr>parseFailureBehavior := THROW_ERROR\<rparr>) =
     Inl (Error (parse_error_message example_env (JStr ''x'') ''xsd:integer'')) \<and>
   dataArrayToObject example_env [JStr ''x'', JStr ''y'']
     [example_field ''amount'' ''xsd:integer'' False]
     (default_array_options\<lparr>parseFailureBehavior := THROW_ERROR\<rparr>) \<noteq> Inl TypeError"
  by code_simp

text \<open>
  C10, amended: when the record has, at an index not below the length of the field list, a
  cell that is not skipped, the conversion returns no record. It throws a TypeError,
  unless, under \<^verbatim>\<open>THROW_ERROR\<close>, a coercion of an earlier cell has an undefined parse
  result: then it may throw the parse error of the first such coercion instead.
\<close>

theorem out_of_range_cell:
  assumes "i < length arr" and "length fl \<le> i" and "\<not> skipped (arr ! i)"
  shows "\<exists>e. dataArrayToObject E arr fl opts = Inl e \<and>
           (e = TypeError \<or>
            (parseFailureBehavior opts = THROW_ERROR \<and>
             (\<exists>c. List.find (fails_to_parse (engine E opts)) (coercions fl (take i arr) 0) = Some c \<and>
                  e = Error (parse_error_message E (fst c) (snd c)))))"
proof -
  from assms obtain e where e: "dataArrayToObject E arr fl opts = Inl e"
    unfolding dataArrayToObject_engine
    using forEach_cell_out_of_range [where j = i and cells = arr and fl = fl and idx = 0 and E = E
        and D = "engine E opts" and opts = opts and obj = empty_object]
    by auto
  have early: "coercions fl arr 0 = coercions fl (take i arr) 0"
    using coercions_take [OF assms(2), of arr 0] by simp
  show ?thesis
  proof (cases e)
    case TypeError
    with e show ?thesis by simp
  next
    case (Error m)
    with e have throw: "parseFailureBehavior opts = THROW_ERROR"
      unfolding dataArrayToObject_engine using forEach_cell_Error by blast
    from forEach_cell_failing [OF throw, where D = "engine E opts" and fl = fl and cells = arr
        and idx = 0 and E = E and obj = empty_object] e Error
    obtain c where "List.find (fails_to_parse (engine E opts)) (coercions fl arr 0) = Some c"
      and "m = parse_error_message E (fst c) (snd c)"
      unfolding dataArrayToObject_engine by (auto split: option.splits)
    with e Error throw early show ?thesis by simp
  qed
qed

theorem out_of_range_cell_witness:
  "dataArrayToObject example_env [JStr ''7'', JStr ''y'']
     [example_field ''amount'' ''xsd:integer'' False] default_array_options = Inl TypeError"
proof -
  let ?arr = "[JStr ''7'', JStr ''y'']"
  let ?fl = "[example_field ''amount'' ''xsd:integer'' False]"
  have 1: "1 < length ?arr" and 2: "length ?fl \<le> 1" and 3: "\<not> skipped (?arr ! 1)"
    by code_simp+
  have keep: "parseFailureBehavior default_array_options \<noteq> THROW_ERROR"
    by code_simp
  show ?thesis
    using out_of_range_cell [OF 1 2 3, where E = example_env and opts = default_array_options] keep
    by auto
qed

section \<open>dataArrayToObject: the keys of the record\<close>

lemma obj_get_empty: "obj_get (properties empty_object) k = None"
  by (simp add: empty_object_def obj_get_def)

lemma get_assign_other:
  "k' \<noteq> k \<Longrightarrow> obj_get (properties (assign obj k v)) k' = obj_get (properties obj) k'"
  by (simp add: assign_def obj_get_def update_conv)

lemma get_assign_same:
  "k \<noteq> ''__proto__'' \<Longrightarrow> obj_get (properties (assign obj k v)) k = Some v"
  by (simp add: assign_def obj_get_def update_conv)

lemma assign_distinct:
  "distinct (map fst (properties obj)) \<Longrightarrow> distinct (map fst (properties (assign obj k v)))"
  by (simp add: assign_def distinct_update)

lemma map_Inr_inject: "map Inr xs = map Inr ys \<Longrightarrow> xs = ys"
  by (simp add: inj_map_eq_map)

lemma map_throwing_eq_Inr: "map_throwing f xs = Inr ys \<longleftrightarrow> map f xs = map Inr ys"
proof (induction xs arbitrary: ys)
  case Nil
  show ?case by auto
next
  case (Cons x xs)
  show ?case
  proof (cases "f x")
    case (Inl e)
    then show ?thesis by (cases ys) auto
  next
    case (Inr y)
    show ?thesis
    proof (cases "map_throwing f xs")
      case (Inl e)
      with Cons.IH have "map f xs \<noteq> map Inr zs" for zs by simp
      with Inl Inr show ?thesis by (cases ys) auto
    next
      case inner: (Inr zs)
      with Cons.IH [of zs] have "map f xs = map Inr zs" by simp
      with inner Inr show ?thesis by (cases ys) (auto simp: inj_map_eq_map)
    qed
  qed
qed

text \<open>What one cell does to the key of its own field, and that it leaves the other keys.\<close>

lemma cell_to_object_skipped: "skipped cell \<Longrightarrow> cell_to_object E D opts fl obj cell idx = Inr obj"
  by (auto simp: cell_to_object_def skipped_def)

lemma cell_to_object_single:
  assumes "cell_to_object E D opts fl obj cell i = Inr obj'"
    and "\<not> skipped cell" and "i < length fl" and "\<not> multivalued (fl ! i)"
  shows "\<exists>v. getParsedValue E D opts cell (datatype_tag (fl ! i)) = Inr v \<and>
             obj' = assign obj (name (fl ! i)) v"
  using assms by (auto simp: cell_to_object_def skipped_def Let_def split: sum.splits)

lemma cell_to_object_multi:
  assumes "cell_to_object E D opts fl obj cell i = Inr obj'"
    and "i < length fl" and "multivalued (fl ! i)"
  shows "\<exists>tokens vals.
           parseMultivaluedValue cell = Inr tokens \<and>
           map (\<lambda>t. getParsedValue E D opts (JStr t) (datatype_tag (fl ! i))) tokens = map Inr vals \<and>
           obj' = (if filter (\<lambda>v. v \<noteq> JUndefined) vals = [] then obj
                   else assign obj (name (fl ! i)) (JArr (filter (\<lambda>v. v \<noteq> JUndefined) vals)))"
proof (cases "skipped cell")
  case True
  then have "parseMultivaluedValue cell = Inr []"
    by (auto simp: skipped_def parseMultivaluedValue_def)
  moreover have "obj' = obj"
    using assms(1) True by (simp add: cell_to_object_skipped)
  ultimately show ?thesis by simp
next
  case False
  with assms obtain tokens vals where
    "parseMultivaluedValue cell = Inr tokens"
    "map_throwing (\<lambda>t. getParsedValue E D opts (JStr t) (datatype_tag (fl ! i))) tokens = Inr vals"
    "obj' = (if filter (\<lambda>v. v \<noteq> JUndefined) vals = [] then obj
             else assign obj (name (fl ! i)) (JArr (filter (\<lambda>v. v \<noteq> JUndefined) vals)))"
    by (auto simp: cell_to_object_def skipped_def Let_def split: sum.splits if_splits)
  then show ?thesis
    by (auto simp: map_throwing_eq_Inr)
qed

lemma cell_to_object_keys:
  assumes "cell_to_object E D opts fl obj cell j = Inr obj'"
  shows "obj' = obj \<or> (j < length fl \<and> (\<exists>v. obj' = assign obj (name (fl ! j)) v))"
  using assms
  by (auto simp: cell_to_object_def Let_def split: sum.splits if_splits)

lemma cell_to_object_other:
  assumes "cell_to_object E D opts fl obj cell j = Inr obj'"
    and "distinct (map name fl)" and "i < length fl" and "i \<noteq> j"
  shows "obj_get (properties obj') (name (fl ! i)) = obj_get (properties obj) (name (fl ! i))"
proof -
  from cell_to_object_keys [OF assms(1)] show ?thesis
  proof
    assume "obj' = obj"
    then show ?thesis by simp
  next
    assume "j < length fl \<and> (\<exists>v. obj' = assign obj (name (fl ! j)) v)"
    then obtain v where j: "j < length fl" and obj': "obj' = assign obj (name (fl ! j)) v" by blast
    have "name (fl ! i) \<noteq> name (fl ! j)"
      using assms(2-4) j by (simp add: distinct_conv_nth)
    with obj' show ?thesis by (simp add: get_assign_other)
  qed
qed

lemma cell_to_object_distinct:
  "cell_to_object E D opts fl obj cell j = Inr obj' \<Longrightarrow> distinct (map fst (properties obj)) \<Longrightarrow>
   distinct (map fst (properties obj'))"
  using cell_to_object_keys [of E D opts fl obj cell j obj'] by (auto simp: assign_distinct)

lemma forEach_cell_distinct:
  "forEach_cell E D opts fl cells idx obj = Inr obj' \<Longrightarrow> distinct (map fst (properties obj)) \<Longrightarrow>
   distinct (map fst (properties obj'))"
proof (induction cells arbitrary: idx obj)
  case Nil
  then show ?case by simp
next
  case (Cons cell cells)
  then show ?case
    by (auto split: sum.splits dest: cell_to_object_distinct)
qed

lemma forEach_cell_elsewhere:
  assumes "forEach_cell E D opts fl cells idx obj = Inr obj'"
    and "distinct (map name fl)" and "i < length fl" and "i < idx \<or> idx + length cells \<le> i"
  shows "obj_get (properties obj') (name (fl ! i)) = obj_get (properties obj) (name (fl ! i))"
  using assms(1,4)
proof (induction cells arbitrary: idx obj)
  case Nil
  then show ?case by simp
next
  case (Cons cell cells)
  from Cons.prems(1) obtain obj1 where
    step: "cell_to_object E D opts fl obj cell idx = Inr obj1" and
    rest: "forEach_cell E D opts fl cells (Suc idx) obj1 = Inr obj'"
    by (auto split: sum.splits)
  have "i \<noteq> idx" using Cons.prems(2) by auto
  then have "obj_get (properties obj1) (name (fl ! i)) = obj_get (properties obj) (name (fl ! i))"
    using cell_to_object_other [OF step assms(2,3)] by simp
  moreover have "obj_get (properties obj') (name (fl ! i)) = obj_get (properties obj1) (name (fl ! i))"
    using Cons.prems(2) by (intro Cons.IH [OF rest]) auto
  ultimately show ?case by simp
qed

lemma forEach_cell_at:
  assumes "forEach_cell E D opts fl cells idx obj = Inr obj'"
    and "distinct (map name fl)" and "i < length fl" and "idx \<le> i" and "i < idx + length cells"
  shows "\<exists>obj1 obj2.
           cell_to_object E D opts fl obj1 (cells ! (i - idx)) i = Inr obj2 \<and>
           obj_get (properties obj1) (name (fl ! i)) = obj_get (properties obj) (name (fl ! i)) \<and>
           obj_get (properties obj') (name (fl ! i)) = obj_get (properties obj2) (name (fl ! i))"
  using assms(1,4,5)
proof (induction cells arbitrary: idx obj)
  case Nil
  then show ?case by simp
next
  case (Cons cell cells)
  from Cons.prems(1) obtain obj1 where
    step: "cell_to_object E D opts fl obj cell idx = Inr obj1" and
    rest: "forEach_cell E D opts fl cells (Suc idx) obj1 = Inr obj'"
    by (auto split: sum.splits)
  show ?case
  proof (cases "i = idx")
    case True
    have "obj_get (properties obj') (name (fl ! i)) = obj_get (properties obj1) (name (fl ! i))"
      using forEach_cell_elsewhere [OF rest assms(2,3)] True by simp
    with step True show ?thesis by auto
  next
    case False
    then have later: "Suc idx \<le> i" "i < Suc idx + length cells"
      using Cons.prems(2,3) by auto
    from Cons.IH [OF rest later] obtain o1 o2 where
      "cell_to_object E D opts fl o1 (cells ! (i - Suc idx)) i = Inr o2"
      "obj_get (properties o1) (name (fl ! i)) = obj_get (properties obj1) (name (fl ! i))"
      "obj_get (properties obj') (name (fl ! i)) = obj_get (properties o2) (name (fl ! i))" by blast
    moreover have "obj_get (properties obj1) (name (fl ! i)) = obj_get (properties obj) (name (fl ! i))"
      using cell_to_object_other [OF step assms(2,3)] False by simp
    moreover have "(cell # cells) ! (i - idx) = cells ! (i - Suc idx)"
      using later by (simp add: nth_Cons')
    ultimately show ?thesis by auto
  qed
qed

text \<open>The cell of a field decides the key of the field in the record returned.\<close>

lemma dataArrayToObject_cell:
  assumes "dataArrayToObject E arr fl opts = Inr obj"
    and "distinct (map name fl)" and "i < length fl" and "i < length arr"
  shows "\<exists>obj1 obj2.
           cell_to_object E (engine E opts) opts fl obj1 (arr ! i) i = Inr obj2 \<and>
           obj_get (properties obj1) (name (fl ! i)) = None \<and>
           obj_get (properties obj) (name (fl ! i)) = obj_get (properties obj2) (name (fl ! i))"
  using forEach_cell_at [where E = E and D = "engine E opts" and opts = opts and fl = fl
      and cells = arr and idx = 0 and obj = empty_object and obj' = obj and i = i] assms
  by (simp add: dataArrayToObject_engine obj_get_empty)

lemma dataArrayToObject_no_cell:
  assumes "dataArrayToObject E arr fl opts = Inr obj"
    and "distinct (map name fl)" and "i < length fl" and "length arr \<le> i"
  shows "obj_get (properties obj) (name (fl ! i)) = None"
  using forEach_cell_elsewhere [where E = E and D = "engine E opts" and opts = opts and fl = fl
      and cells = arr and idx = 0 and obj = empty_object and obj' = obj and i = i] assms
  by (simp add: dataArrayToObject_engine obj_get_empty)

lemma dataArrayToObject_distinct:
  "dataArrayToObject E arr fl opts = Inr obj \<Longrightarrow> distinct (map fst (properties obj))"
  using forEach_cell_distinct [where E = E and D = "engine E opts" and opts = opts and fl = fl
      and cells = arr and idx = 0 and obj = empty_object and obj' = obj]
  by (simp add: dataArrayToObject_engine empty_object_def)

text \<open>
  C5, as stated: under \<^verbatim>\<open>REMOVE\<close>, a single-valued field whose value fails to coerce has its
  key in the record, bound to undefined. For the field name \<^verbatim>\<open>__proto__\<close> the assignment
  creates no key, and the record is the same as for a skipped cell.
\<close>

theorem remove_keeps_key_counterexample:
  "dataArrayToObject example_env [JStr ''abc'']
     [example_field ''__proto__'' ''xsd:integer'' False]
     (default_array_options\<lparr>parseFailureBehavior := REMOVE\<rparr>) = Inr empty_object \<and>
   dataArrayToObject example_env [JStr []]
     [example_field ''__proto__'' ''xsd:integer'' False]
     (default_array_options\<lparr>parseFailureBehavior := REMOVE\<rparr>) = Inr empty_object \<and>
   obj_get (properties empty_object) ''__proto__'' \<noteq> Some JUndefined"
  by code_simp

text \<open>
  C5, amended: under \<^verbatim>\<open>REMOVE\<close>, in the record returned for a field list with distinct
  names, a single-valued field whose name is not \<^verbatim>\<open>__proto__\<close> has no key when its cell is
  skipped (or missing), and has its key, bound to undefined, when its cell is not skipped
  and fails to parse.
\<close>

theorem remove_keeps_key:
  assumes "dataArrayToObject E arr fl opts = Inr obj"
    and "distinct (map name fl)" and "i < length fl" and "\<not> multivalued (fl ! i)"
    and "parseFailureBehavior opts = REMOVE"
    and "name (fl ! i) \<noteq> ''__proto__''"
  shows "(length arr \<le> i \<or> skipped (arr ! i) \<longrightarrow>
            obj_get (properties obj) (name (fl ! i)) = None \<and>
            name (fl ! i) \<notin> fst ` set (properties obj)) \<and>
         (i < length arr \<and> \<not> skipped (arr ! i) \<and>
          parse (engine E opts) (arr ! i) (datatype_tag (fl ! i)) = JUndefined \<longrightarrow>
            obj_get (properties obj) (name (fl ! i)) = Some JUndefined \<and>
            name (fl ! i) \<in> fst ` set (properties obj))"
proof -
  have present: "k \<in> fst ` set (properties obj)" if "obj_get (properties obj) k = Some w" for k w
    using that by (auto simp: obj_get_def dest: map_of_SomeD intro: rev_image_eqI)
  have missing: "k \<notin> fst ` set (properties obj)" if "obj_get (properties obj) k = None" for k
    using that by (simp add: obj_get_def map_of_eq_None_iff)
  show ?thesis
  proof (cases "i < length arr")
    case False
    then show ?thesis
      using dataArrayToObject_no_cell [OF assms(1-3)] missing by simp
  next
    case True
    from dataArrayToObject_cell [OF assms(1-3) True] obtain obj1 obj2 where
      step: "cell_to_object E (engine E opts) opts fl obj1 (arr ! i) i = Inr obj2" and
      before: "obj_get (properties obj1) (name (fl ! i)) = None" and
      after: "obj_get (properties obj) (name (fl ! i)) = obj_get (properties obj2) (name (fl ! i))"
      by blast
    show ?thesis
    proof (cases "skipped (arr ! i)")
      case skip: True
      then have "obj2 = obj1" using step by (simp add: cell_to_object_skipped)
      with before after have "obj_get (properties obj) (name (fl ! i)) = None" by simp
      with skip missing show ?thesis by simp
    next
      case live: False
      from cell_to_object_single [OF step live assms(3,4)] obtain v where
        v: "getParsedValue E (engine E opts) opts (arr ! i) (datatype_tag (fl ! i)) = Inr v" and
        obj2: "obj2 = assign obj1 (name (fl ! i)) v" by blast
      have "v = JUndefined" if "parse (engine E opts) (arr ! i) (datatype_tag (fl ! i)) = JUndefined"
        using v that assms(5) by (simp add: getParsedValue_def)
      then have "obj_get (properties obj) (name (fl ! i)) = Some JUndefined"
        if "parse (engine E opts) (arr ! i) (datatype_tag (fl ! i)) = JUndefined"
        using that after obj2 assms(6) by (simp add: get_assign_same)
      then show ?thesis using live True present by auto
    qed
  qed
qed

theorem remove_keeps_key_witness:
  "dataArrayToObject example_env [JStr ''abc'', JStr []]
     [example_field ''amount'' ''xsd:integer'' False, example_field ''note'' ''xsd:string'' False]
     (default_array_options\<lparr>parseFailureBehavior := REMOVE\<rparr>) =
     Inr \<lparr>proto = Object_prototype, properties = [(''amount'', JUndefined)]\<rparr> \<and>
   obj_get [(''amount'', JUndefined)] ''amount'' = Some JUndefined \<and>
   obj_get [(''amount'', JUndefined)] ''note'' = None"
proof -
  let ?arr = "[JStr ''abc'', JStr []]"
  let ?fl = "[example_field ''amount'' ''xsd:integer'' False, example_field ''note'' ''xsd:string'' False]"
  let ?opts = "default_array_options\<lparr>parseFailureBehavior := REMOVE\<rparr>"
  let ?obj = "\<lparr>proto = Object_prototype, properties = [(''amount'', JUndefined)]\<rparr>"
  have run: "dataArrayToObject example_env ?arr ?fl ?opts = Inr ?obj"
    by code_simp
  have names: "distinct (map name ?fl)"
    by code_simp
  have remove: "parseFailureBehavior ?opts = REMOVE"
    by code_simp
  have f0: "0 < length ?fl" "\<not> multivalued (?fl ! 0)" and f1: "1 < length ?fl" "\<not> multivalued (?fl ! 1)"
    by code_simp+
  have plain: "name (?fl ! 0) \<noteq> ''__proto__''" "name (?fl ! 1) \<noteq> ''__proto__''"
    by code_simp+
  have failed: "0 < length ?arr \<and> \<not> skipped (?arr ! 0) \<and>
                parse (engine example_env ?opts) (?arr ! 0) (datatype_tag (?fl ! 0)) = JUndefined"
    by code_simp
  have empty: "skipped (?arr ! 1)"
    by code_simp
  have n0: "name (?fl ! 0) = ''amount''" and n1: "name (?fl ! 1) = ''note''"
    by code_simp+
  have "obj_get (properties ?obj) (name (?fl ! 0)) = Some JUndefined"
    using remove_keeps_key [OF run names f0 remove plain(1)] failed by blast
  moreover have "obj_get (properties ?obj) (name (?fl ! 1)) = None"
    using remove_keeps_key [OF run names f1 remove plain(2)] empty by blast
  ultimately show ?thesis
    using run n0 n1 by simp
qed

text \<open>
  C6, as stated: when some token of a multivalued cell is kept, the key of the field is
  set to the sequence. For the field name \<^verbatim>\<open>__proto__\<close> the sequence becomes the prototype of
  the record, which gets no key.
\<close>

theorem multivalued_cell_key_counterexample:
  "dataArrayToObject example_env [JStr ''a; b'']
     [example_field ''__proto__'' ''xsd:string'' True] default_array_options =
     Inr \<lparr>proto = Value_prototype (JArr [JStr ''a'', JStr ''b'']), properties = []\<rparr> \<and>
   obj_get (properties \<lparr>proto = Value_prototype (JArr [JStr ''a'', JStr ''b'']), properties = []\<rparr>)
     ''__proto__'' \<noteq> Some (JArr [JStr ''a'', JStr ''b''])"
  by code_simp

text \<open>
  C6, amended: in the record returned for a field list with distinct names, for a
  multivalued field whose name is not \<^verbatim>\<open>__proto__\<close>, the cell is decoded into tokens, each
  token is coerced on its own, the undefined results are dropped, and the key of the field
  is bound to the remaining sequence when there is one; otherwise the record has no such
  key. The key is never bound to the empty sequence.
\<close>

theorem multivalued_cell_key:
  assumes "dataArrayToObject E arr fl opts = Inr obj"
    and "distinct (map name fl)" and "i < length fl" and "i < length arr"
    and "multivalued (fl ! i)"
    and "name (fl ! i) \<noteq> ''__proto__''"
  shows "\<exists>tokens vals.
           parseMultivaluedValue (arr ! i) = Inr tokens \<and>
           map (\<lambda>t. getParsedValue E (engine E opts) opts (JStr t) (datatype_tag (fl ! i))) tokens =
             map Inr vals \<and>
           obj_get (properties obj) (name (fl ! i)) =
             (if filter (\<lambda>v. v \<noteq> JUndefined) vals = [] then None
              else Some (JArr (filter (\<lambda>v. v \<noteq> JUndefined) vals))) \<and>
           obj_get (properties obj) (name (fl ! i)) \<noteq> Some (JArr [])"
proof -
  from dataArrayToObject_cell [OF assms(1-4)] obtain obj1 obj2 where
    step: "cell_to_object E (engine E opts) opts fl obj1 (arr ! i) i = Inr obj2" and
    before: "obj_get (properties obj1) (name (fl ! i)) = None" and
    after: "obj_get (properties obj) (name (fl ! i)) = obj_get (properties obj2) (name (fl ! i))"
    by blast
  from cell_to_object_multi [OF step assms(3,5)] obtain tokens vals where
    tokens: "parseMultivaluedValue (arr ! i) = Inr tokens" and
    vals: "map (\<lambda>t. getParsedValue E (engine E opts) opts (JStr t) (datatype_tag (fl ! i))) tokens =
           map Inr vals" and
    obj2: "obj2 = (if filter (\<lambda>v. v \<noteq> JUndefined) vals = [] then obj1
                   else assign obj1 (name (fl ! i)) (JArr (filter (\<lambda>v. v \<noteq> JUndefined) vals)))"
    by blast
  have key: "obj_get (properties obj) (name (fl ! i)) =
             (if filter (\<lambda>v. v \<noteq> JUndefined) vals = [] then None
              else Some (JArr (filter (\<lambda>v. v \<noteq> JUndefined) vals)))"
    using after before obj2 assms(6) by (simp add: get_assign_same)
  then have "obj_get (properties obj) (name (fl ! i)) \<noteq> Some (JArr [])"
    by (simp split: if_splits)
  with tokens vals key show ?thesis by blast
qed

theorem multivalued_cell_key_witness:
  "dataArrayToObject example_env [JStr ''x; y'', JStr ''1; x ;2'']
     [example_field ''sizes'' ''xsd:integer'' True, example_field ''counts'' ''xsd:integer'' True]
     (default_array_options\<lparr>parseFailureBehavior := REMOVE\<rparr>) =
     Inr \<lparr>proto = Object_prototype, properties = [(''counts'', JArr [JNum 1, JNum 2])]\<rparr> \<and>
   obj_get [(''counts'', JArr [JNum 1, JNum 2])] ''sizes'' = None \<and>
   obj_get [(''counts'', JArr [JNum 1, JNum 2])] ''counts'' = Some (JArr [JNum 1, JNum 2])"
proof -
  let ?arr = "[JStr ''x; y'', JStr ''1; x ;2'']"
  let ?fl = "[example_field ''sizes'' ''xsd:integer'' True, example_field ''counts'' ''xsd:integer'' True]"
  let ?opts = "default_array_options\<lparr>parseFailureBehavior := REMOVE\<rparr>"
  let ?obj = "\<lparr>proto = Object_prototype, properties = [(''counts'', JArr [JNum 1, JNum 2])]\<rparr>"
  let ?coerce = "\<lambda>i t. getParsedValue example_env (engine example_env ?opts) ?opts (JStr t) (datatype_tag (?fl ! i))"
  have run: "dataArrayToObject example_env ?arr ?fl ?opts = Inr ?obj"
    by code_simp
  have names: "distinct (map name ?fl)"
    by code_simp
  have f0: "0 < length ?fl" "0 < length ?arr" "multivalued (?fl ! 0)" "name (?fl ! 0) \<noteq> ''__proto__''"
    and f1: "1 < length ?fl" "1 < length ?arr" "multivalued (?fl ! 1)" "name (?fl ! 1) \<noteq> ''__proto__''"
    by code_simp+
  have n0: "name (?fl ! 0) = ''sizes''" and n1: "name (?fl ! 1) = ''counts''"
    by code_simp+
  have t0: "parseMultivaluedValue (?arr ! 0) = Inr [''x'', ''y'']"
    and t1: "parseMultivaluedValue (?arr ! 1) = Inr [''1'', ''x'', ''2'']"
    by code_simp+
  have v0: "map (?coerce 0) [''x'', ''y''] = map Inr [JUndefined, JUndefined]"
    and v1: "map (?coerce 1) [''1'', ''x'', ''2''] = map Inr [JNum 1, JUndefined, JNum 2]"
    by code_simp+
  from multivalued_cell_key [OF run names f0] obtain tokens vals where
    tk: "parseMultivaluedValue (?arr ! 0) = Inr tokens" and
    mp: "map (?coerce 0) tokens = map Inr vals" and
    key: "obj_get (properties ?obj) (name (?fl ! 0)) =
      (if filter (\<lambda>v. v \<noteq> JUndefined) vals = [] then None
       else Some (JArr (filter (\<lambda>v. v \<noteq> JUndefined) vals)))" by blast
  have "tokens = [''x'', ''y'']"
    using tk t0 by simp
  then have "map Inr vals = map (?coerce 0) [''x'', ''y'']"
    using mp by simp
  also note v0
  finally have "vals = [JUndefined, JUndefined]"
    by (rule map_Inr_inject)
  with key n0 have sizes: "obj_get [(''counts'', JArr [JNum 1, JNum 2])] ''sizes'' = None" by simp
  from multivalued_cell_key [OF run names f1] obtain tokens' vals' where
    tk': "parseMultivaluedValue (?arr ! 1) = Inr tokens'" and
    mp': "map (?coerce 1) tokens' = map Inr vals'" and
    key': "obj_get (properties ?obj) (name (?fl ! 1)) =
      (if filter (\<lambda>v. v \<noteq> JUndefined) vals' = [] then None
       else Some (JArr (filter (\<lambda>v. v \<noteq> JUndefined) vals')))" by blast
  have "tokens' = [''1'', ''x'', ''2'']"
    using tk' t1 by simp
  then have "map Inr vals' = map (?coerce 1) [''1'', ''x'', ''2'']"
    using mp' by simp
  also note v1
  finally have "vals' = [JNum 1, JUndefined, JNum 2]"
    by (rule map_Inr_inject)
  with key' n1 have counts: "obj_get [(''counts'', JArr [JNum 1, JNum 2])] ''counts'' =
      Some (JArr [JNum 1, JNum 2])" by simp
  show ?thesis
    using run sizes counts by simp
qed

section \<open>The round trip\<close>

text \<open>The value that an entry with value \<open>v\<close> writes into the slot of its field.\<close>

lemma entry_to_array_at:
  assumes "findIndex (\<lambda>f. name f = fst e) fl = int i" and "i < length (snd st)"
  shows "snd (entry_to_array E D sdf fl st e) ! i =
         (if multivalued (fl ! i) \<and> isArray (snd e) then
            JStr (formatMultivaluedValue E
              (Some (map (\<lambda>v. getStringifiedValue E D sdf v (datatype_tag (fl ! i))) (elements (snd e)))))
          else getStringifiedValue E D sdf (snd e) (datatype_tag (fl ! i)))"
  using assms by (simp add: entry_to_array_def Let_def)

lemma fold_entries_slot:
  assumes "distinct (map name fl)" and "i < length fl"
  shows "distinct (map fst es) \<Longrightarrow> length (snd st) = length fl \<Longrightarrow>
         snd (foldl (entry_to_array E D sdf fl) st es) ! i =
         (case map_of es (name (fl ! i)) of
            None \<Rightarrow> snd st ! i
          | Some v \<Rightarrow>
              if multivalued (fl ! i) \<and> isArray v then
                JStr (formatMultivaluedValue E
                  (Some (map (\<lambda>x. getStringifiedValue E D sdf x (datatype_tag (fl ! i))) (elements v))))
              else getStringifiedValue E D sdf v (datatype_tag (fl ! i)))"
proof (induction es arbitrary: st)
  case Nil
  show ?case by simp
next
  case (Cons e es)
  let ?st = "entry_to_array E D sdf fl st e"
  have len: "length (snd ?st) = length fl"
    using Cons.prems(2) by (simp add: entry_to_array_length)
  have d: "distinct (map fst es)" using Cons.prems(1) by simp
  show ?case
  proof (cases "fst e = name (fl ! i)")
    case True
    then have idx: "findIndex (\<lambda>f. name f = fst e) fl = int i"
      using findIndex_distinct [OF assms] by simp
    have "findIndex (\<lambda>f. name f = fst e') fl \<noteq> int i" if "e' \<in> set es" for e'
    proof
      assume "findIndex (\<lambda>f. name f = fst e') fl = int i"
      then have "name (fl ! i) = fst e'"
        using findIndex_found [of "\<lambda>f. name f = fst e'" fl] by simp
      with True that Cons.prems(1) show False by (auto simp: image_iff)
    qed
    then have "snd (foldl (entry_to_array E D sdf fl) ?st es) ! i = snd ?st ! i"
      by (simp add: fold_entries_other)
    moreover have "map_of (e # es) (name (fl ! i)) = Some (snd e)"
      using True by (cases e) simp
    ultimately show ?thesis
      using entry_to_array_at [OF idx, of st E D sdf] assms(2) Cons.prems(2) by simp
  next
    case False
    have "findIndex (\<lambda>f. name f = fst e) fl \<noteq> int i"
    proof
      assume "findIndex (\<lambda>f. name f = fst e) fl = int i"
      then have "name (fl ! i) = fst e"
        using findIndex_found [of "\<lambda>f. name f = fst e" fl] by simp
      with False show False by simp
    qed
    then have "snd ?st ! i = snd st ! i"
      by (rule entry_to_array_other)
    moreover have "map_of (e # es) (name (fl ! i)) = map_of es (name (fl ! i))"
      using False by (cases e) auto
    ultimately show ?thesis
      using Cons.IH [OF d len] by (simp split: option.splits)
  qed
qed

lemma dataObjectToArray_engine:
  "dataObjectToArray E obj fl opts =
   foldl (entry_to_array E (engine E opts) (serializedDateFormat opts) fl)
     ([], replicate (length fl) (JStr [])) (entries obj)"
  by (simp add: dataObjectToArray_def engine_def)

lemma dataObjectToArray_slot:
  assumes "distinct (map name fl)" and "i < length fl" and "distinct (map fst obj)"
  shows "snd (dataObjectToArray E obj fl opts) ! i =
         (case obj_get obj (name (fl ! i)) of
            None \<Rightarrow> JStr []
          | Some v \<Rightarrow>
              if multivalued (fl ! i) \<and> isArray v then
                JStr (formatMultivaluedValue E
                  (Some (map (\<lambda>x. getStringifiedValue E (engine E opts) (serializedDateFormat opts) x
                                (datatype_tag (fl ! i))) (elements v))))
              else getStringifiedValue E (engine E opts) (serializedDateFormat opts) v
                     (datatype_tag (fl ! i)))"
proof -
  have "map_of (entries obj) = map_of obj"
    using assms(3) by (simp add: map_of_inject_set distinct_entries set_entries)
  then show ?thesis
    using fold_entries_slot [OF assms(1,2) distinct_entries [OF assms(3)],
        where st = "([], replicate (length fl) (JStr []))" and E = E and D = "engine E opts"
        and sdf = "serializedDateFormat opts"] assms(2)
    by (simp add: dataObjectToArray_engine obj_get_def split: option.splits)
qed

text \<open>
  C1, as stated: for every single-valued field and every cell in canonical stringified
  form, the conversion to a keyed record and back, both under \<^verbatim>\<open>INPUT_FORMAT\<close> with the same
  format strings, restores the string in the slot of the field. For the field name
  \<^verbatim>\<open>__proto__\<close> the record gets no key, and the slot comes back empty.
\<close>

theorem round_trip_input_format_counterexample:
  "canonical_form example_env
     (engine example_env (default_array_options\<lparr>dateBehavior := INPUT_FORMAT\<rparr>)) ''xsd:integer'' ''42'' \<and>
   dataArrayToObject example_env [JStr ''42''] [example_field ''__proto__'' ''xsd:integer'' False]
     (default_array_options\<lparr>dateBehavior := INPUT_FORMAT\<rparr>) = Inr empty_object \<and>
   snd (dataObjectToArray example_env (properties empty_object)
          [example_field ''__proto__'' ''xsd:integer'' False]
          (default_object_options\<lparr>serializedDateFormat := INPUT_FORMAT\<rparr>)) ! 0 = JStr [] \<and>
   snd (dataObjectToArray example_env (properties empty_object)
          [example_field ''__proto__'' ''xsd:integer'' False]
          (default_object_options\<lparr>serializedDateFormat := INPUT_FORMAT\<rparr>)) ! 0 \<noteq> JStr ''42''"
  by code_simp

text \<open>
  C1, amended: let the field list have distinct names and let the cell of a single-valued
  field whose name is not \<^verbatim>\<open>__proto__\<close> be a string in canonical stringified form for the
  field's datatype. When the conversion to a keyed record with \<^verbatim>\<open>dateBehavior\<close>
  \<^verbatim>\<open>INPUT_FORMAT\<close> returns a record, converting that record back with \<^verbatim>\<open>serializedDateFormat\<close>
  \<^verbatim>\<open>INPUT_FORMAT\<close> and the same three format strings gives an array whose slot for the field
  is the original string.
\<close>

theorem round_trip_input_format:
  assumes "dataArrayToObject E arr fl aopts = Inr obj"
    and "distinct (map name fl)" and "i < length fl" and "i < length arr"
    and "\<not> multivalued (fl ! i)"
    and "arr ! i = JStr s"
    and "canonical_form E (engine E aopts) (datatype_tag (fl ! i)) s"
    and "dateBehavior aopts = INPUT_FORMAT" and "serializedDateFormat oopts = INPUT_FORMAT"
    and "dateFormat oopts = dateFormat aopts" and "datetimeFormat oopts = datetimeFormat aopts"
    and "timeFormat oopts = timeFormat aopts"
    and "name (fl ! i) \<noteq> ''__proto__''"
  shows "snd (dataObjectToArray E (properties obj) fl oopts) ! i = JStr s"
proof -
  let ?D = "engine E aopts"
  let ?dt = "datatype_tag (fl ! i)"
  let ?typed = "parse ?D (JStr s) ?dt"
  have same: "engine E oopts = ?D"
    using assms(10-12) by (simp add: engine_def)
  have keys: "distinct (map fst (properties obj))"
    using assms(1) by (rule dataArrayToObject_distinct)
  note slot = dataObjectToArray_slot [OF assms(2,3) keys, of E oopts]
  from assms(7) have defined: "?typed \<noteq> JUndefined"
    and kind: "if datatypeIsDateOrTime E ?dt then is_instant ?typed else \<not> isDate ?typed"
    and canon: "stringify ?D ?typed ?dt = JStr s"
    by (simp_all add: canonical_form_def Let_def)
  from dataArrayToObject_cell [OF assms(1-4)] obtain obj1 obj2 where
    step: "cell_to_object E ?D aopts fl obj1 (arr ! i) i = Inr obj2" and
    before: "obj_get (properties obj1) (name (fl ! i)) = None" and
    after: "obj_get (properties obj) (name (fl ! i)) = obj_get (properties obj2) (name (fl ! i))"
    by blast
  show ?thesis
  proof (cases "s = []")
    case True
    then have "skipped (arr ! i)" using assms(6) by (simp add: skipped_def)
    then have "obj2 = obj1" using step by (simp add: cell_to_object_skipped)
    with before after have "obj_get (properties obj) (name (fl ! i)) = None" by simp
    with slot True show ?thesis by simp
  next
    case False
    then have live: "\<not> skipped (arr ! i)" using assms(6) by (simp add: skipped_def)
    from cell_to_object_single [OF step live assms(3,5)] obtain v where
      v: "getParsedValue E ?D aopts (JStr s) ?dt = Inr v" and
      obj2: "obj2 = assign obj1 (name (fl ! i)) v"
      using assms(6) by auto
    have key: "obj_get (properties obj) (name (fl ! i)) = Some v"
      using after obj2 assms(13) by (simp add: get_assign_same)
    have v_eq: "v = formatDatesAndTimes E ?D INPUT_FORMAT ?typed ?dt"
      using v defined assms(8) by (simp add: getParsedValue_parsed)
    show ?thesis
    proof (cases "datatypeIsDateOrTime E ?dt")
      case True
      with kind obtain t where t: "?typed = JDate (Some t)"
        by (cases ?typed rule: is_instant.cases) auto
      then have "v = JStr s"
        using v_eq canon by (simp add: formatDatesAndTimes_def)
      moreover have "getStringifiedValue E ?D INPUT_FORMAT (JStr s) ?dt = JStr s"
        using True t canon by (simp add: getStringifiedValue_def parseDateString_def)
      ultimately show ?thesis
        using slot key assms(5,9) same by simp
    next
      case False
      with kind have "\<not> isDate ?typed" by simp
      then have "v = ?typed"
        using v_eq by (simp add: formatDatesAndTimes_def)
      moreover have "getStringifiedValue E ?D INPUT_FORMAT ?typed ?dt = JStr s"
        using False canon by (simp add: getStringifiedValue_def)
      ultimately show ?thesis
        using slot key assms(5,9) same by simp
    qed
  qed
qed

theorem round_trip_input_format_witness:
  "dataArrayToObject example_env [JStr ''42'', JStr ''7'', JStr ''x'']
     [example_field ''amount'' ''xsd:integer'' False, example_field ''collected'' ''xsd:date'' False,
      example_field ''shipped'' ''xsd:date'' False]
     (default_array_options\<lparr>dateBehavior := INPUT_FORMAT\<rparr>) =
     Inr \<lparr>proto = Object_prototype,
          properties = [(''amount'', JNum 42), (''collected'', JStr ''7''), (''shipped'', JStr ''x'')]\<rparr> \<and>
   snd (dataObjectToArray example_env
          [(''amount'', JNum 42), (''collected'', JStr ''7''), (''shipped'', JStr ''x'')]
          [example_field ''amount'' ''xsd:integer'' False, example_field ''collected'' ''xsd:date'' False,
           example_field ''shipped'' ''xsd:date'' False]
          (default_object_options\<lparr>serializedDateFormat := INPUT_FORMAT\<rparr>)) ! 0 = JStr ''42'' \<and>
   snd (dataObjectToArray example_env
          [(''amount'', JNum 42), (''collected'', JStr ''7''), (''shipped'', JStr ''x'')]
          [example_field ''amount'' ''xsd:integer'' False, example_field ''collected'' ''xsd:date'' False,
           example_field ''shipped'' ''xsd:date'' False]
          (default_object_options\<lparr>serializedDateFormat := INPUT_FORMAT\<rparr>)) ! 1 = JStr ''7''"
proof -
  let ?arr = "[JStr ''42'', JStr ''7'', JStr ''x'']"
  let ?fl = "[example_field ''amount'' ''xsd:integer'' False, example_field ''collected'' ''xsd:date'' False,
              example_field ''shipped'' ''xsd:date'' False]"
  let ?aopts = "default_array_options\<lparr>dateBehavior := INPUT_FORMAT\<rparr>"
  let ?oopts = "default_object_options\<lparr>serializedDateFormat := INPUT_FORMAT\<rparr>"
  let ?obj = "\<lparr>proto = Object_prototype,
               properties = [(''amount'', JNum 42), (''collected'', JStr ''7''), (''shipped'', JStr ''x'')]\<rparr>"
  have run: "dataArrayToObject example_env ?arr ?fl ?aopts = Inr ?obj"
    by code_simp
  have names: "distinct (map name ?fl)"
    by code_simp
  have f0: "0 < length ?fl" "0 < length ?arr" "\<not> multivalued (?fl ! 0)" "?arr ! 0 = JStr ''42''"
    "canonical_form example_env (engine example_env ?aopts) (datatype_tag (?fl ! 0)) ''42''"
    by code_simp+
  have f1: "1 < length ?fl" "1 < length ?arr" "\<not> multivalued (?fl ! 1)" "?arr ! 1 = JStr ''7''"
    "canonical_form example_env (engine example_env ?aopts) (datatype_tag (?fl ! 1)) ''7''"
    by code_simp+
  have opts: "dateBehavior ?aopts = INPUT_FORMAT" "serializedDateFormat ?oopts = INPUT_FORMAT"
    "dateFormat ?oopts = dateFormat ?aopts" "datetimeFormat ?oopts = datetimeFormat ?aopts"
    "timeFormat ?oopts = timeFormat ?aopts"
    by code_simp+
  have plain: "name (?fl ! 0) \<noteq> ''__proto__''" "name (?fl ! 1) \<noteq> ''__proto__''"
    by code_simp+
  show ?thesis
    using run round_trip_input_format [OF run names f0 opts plain(1)]
      round_trip_input_format [OF run names f1 opts plain(2)]
    by simp
qed

end
